theory Spec2Isabelle
  imports Main "HOL-Library.Word"
begin

section \<open>The poem fill-in game of src/lib/game.js\<close>

text \<open>
  The class \<open>PoetryGame\<close> keeps its round in two places: in its own fields and in the
  page (the cards of the two poem lines, the draggable characters, the message line and
  the undo button). The model puts both into one record and passes it through every
  method.

  A JavaScript string is a sequence of UTF-16 code units; a code unit is a 16-bit
  word. \<open>line[i]\<close> is the one-unit string \<open>[line ! i]\<close>.
\<close>

type_synonym jschar = "16 word"
type_synonym jsstring = "jschar list"

text \<open>A position of the poem: (line, index).\<close>

type_synonym pos = "nat \<times> nat"

datatype error = TypeError

datatype jsval = JSUndefined | JSBool bool


subsection \<open>Elements of the page\<close>

text \<open>The CSS class tokens the code sets, removes and queries.\<close>

datatype cls = ClsCharCard | ClsEmpty | ClsFilled | ClsDragOver | ClsDragChar | ClsHidden | ClsDragging

definition classList_add :: "cls \<Rightarrow> cls list \<Rightarrow> cls list" where
  "classList_add k cs = (if k \<in> set cs then cs else cs @ [k])"

definition classList_remove :: "cls \<Rightarrow> cls list \<Rightarrow> cls list" where
  "classList_remove k cs = filter (\<lambda>x. x \<noteq> k) cs"

text \<open>
  A card of a poem line (\<open>createCharCard\<close>): its class tokens, its text, and its
  \<open>data-*\<close> attributes. \<open>dataset.filled\<close> is absent (\<open>None\<close>), \<open>'false'\<close> or
  \<open>'true'\<close>; \<open>dataset.filledChar\<close> is absent or a string. \<open>c_dropZone\<close> says that
  \<open>setupDropZone\<close> attached its listeners to this element.
\<close>

record card =
  c_className :: "cls list"
  c_textContent :: jsstring
  c_line :: nat
  c_index :: nat
  c_char :: jsstring
  c_lineText :: jsstring
  c_filled :: "bool option"
  c_filledChar :: "jsstring option"
  c_dropZone :: bool

text \<open>A draggable character (\<open>renderDragChars\<close>).\<close>

record dragchar =
  d_className :: "cls list"
  d_textContent :: jsstring
  d_char :: jsstring
  d_dragIndex :: nat
  d_lineText :: jsstring

text \<open>An entry of \<open>this.removedChars\<close>.\<close>

record removed =
  r_char :: jsstring
  r_line :: nat
  r_index :: nat
  r_lineText :: jsstring

text \<open>
  \<open>this.lastDragAction\<close> holds references to the card and to the dragged element (or
  \<open>null\<close>). An element is referred to by its place in its container: the containers
  are only ever replaced as a whole (\<open>renderPoem\<close>, \<open>renderDragChars\<close>,
  \<open>restoreStateR\<close>), and each of these runs together with \<open>lastDragAction = null\<close>.
\<close>

record action =
  a_card :: pos
  a_dragChar :: "nat option"
  a_char :: jsstring

text \<open>
  \<open>this.stateR\<close>. \<open>innerHTML\<close> keeps the tags, attributes and text of the children
  and nothing else: the lists below hold the elements without their listeners.
\<close>

record snapshot =
  line1HTML :: "card list"
  line2HTML :: "card list"
  dragCharsHTML :: "dragchar list"
  snap_removedChars :: "removed list"

datatype msg = MsgNone | MsgSuccess | MsgError

text \<open>
  The game and its page. \<open>pendingRestores\<close> counts the callbacks that
  \<open>checkCompletion\<close> handed to \<open>setTimeout\<close> and that have not run yet.
\<close>

record game =
  sections :: "jsstring list list"
  currentLines :: "jsstring list"
  removedChars :: "removed list"
  stateR :: "snapshot option"
  lastDragAction :: "action option"
  lineLength :: int
  removeCount :: int
  line1 :: "card list"
  line2 :: "card list"
  dragChars :: "dragchar list"
  message :: msg
  undoDisabled :: bool
  pendingRestores :: nat

definition lineEl :: "game \<Rightarrow> nat \<Rightarrow> card list" where
  "lineEl s ln = (if ln = 0 then line1 s else line2 s)"

definition card_at :: "game \<Rightarrow> pos \<Rightarrow> card option" where
  "card_at s p = (if snd p < length (lineEl s (fst p)) then Some (lineEl s (fst p) ! snd p) else None)"

definition set_card :: "pos \<Rightarrow> card \<Rightarrow> game \<Rightarrow> game" where
  "set_card p c s =
     (if fst p = 0 then s\<lparr>line1 := (line1 s)[snd p := c]\<rparr>
      else s\<lparr>line2 := (line2 s)[snd p := c]\<rparr>)"

definition update_drag :: "nat \<Rightarrow> (dragchar \<Rightarrow> dragchar) \<Rightarrow> game \<Rightarrow> game" where
  "update_drag k f s =
     (if k < length (dragChars s) then s\<lparr>dragChars := (dragChars s)[k := f (dragChars s ! k)]\<rparr> else s)"

text \<open>All cards of the page, in document order.\<close>

definition cards :: "game \<Rightarrow> card list" where
  "cards s = line1 s @ line2 s"

subsection \<open>Undo\<close>

definition updateUndoButtonState :: "game \<Rightarrow> game" where
  "updateUndoButtonState s = s\<lparr>undoDisabled := (lastDragAction s = None)\<rparr>"

definition empty_out :: "card \<Rightarrow> card" where
  "empty_out c = c\<lparr>c_className := [ClsCharCard, ClsEmpty], c_textContent := [],
                   c_filled := Some False, c_filledChar := None\<rparr>"

text \<open>
  \<open>undoLastDrag\<close> (lines 108-131). Both paths end without a return value, so the
  caller sees \<open>undefined\<close>.
\<close>

definition undoLastDrag :: "game \<Rightarrow> jsval \<times> game" where
  "undoLastDrag s =
     (case lastDragAction s of
        None \<Rightarrow> (JSUndefined, s)
      | Some a \<Rightarrow>
          (let s1 = (case card_at s (a_card a) of
                       None \<Rightarrow> s
                     | Some c \<Rightarrow> set_card (a_card a) (empty_out c) s);
               s2 = (case a_dragChar a of
                       None \<Rightarrow> s1
                     | Some k \<Rightarrow> update_drag k (\<lambda>d. d\<lparr>d_className := classList_remove ClsHidden (d_className d)\<rparr>) s1);
               s3 = s2\<lparr>lastDragAction := None\<rparr>
           in (JSUndefined, updateUndoButtonState s3)))"

subsection \<open>Evaluation\<close>

datatype verdict = Incomplete | Correct | Incorrect

text \<open>The two \<open>querySelectorAll\<close> calls of \<open>checkCompletion\<close>.\<close>

definition emptyCards :: "game \<Rightarrow> card list" where
  "emptyCards s = filter (\<lambda>c. ClsCharCard \<in> set (c_className c) \<and> ClsEmpty \<in> set (c_className c)) (cards s)"

definition filledCards :: "game \<Rightarrow> card list" where
  "filledCards s = filter (\<lambda>c. ClsCharCard \<in> set (c_className c) \<and> c_filled c = Some True) (cards s)"

definition evaluate :: "game \<Rightarrow> verdict" where
  "evaluate s =
     (if length (emptyCards s) > 0 \<or> int (length (filledCards s)) < removeCount s then Incomplete
      else if list_all (\<lambda>c. Some (c_char c) = c_filledChar c) (filledCards s) then Correct
      else Incorrect)"

text \<open>
  \<open>checkCompletion\<close> (lines 456-484): nothing on \<open>Incomplete\<close>, the success message
  on \<open>Correct\<close>, the error message and one more scheduled restore on \<open>Incorrect\<close>.
  The text of the message is chosen at random and is not modelled.
\<close>

definition checkCompletion :: "game \<Rightarrow> game" where
  "checkCompletion s =
     (case evaluate s of
        Incomplete \<Rightarrow> s
      | Correct \<Rightarrow> s\<lparr>message := MsgSuccess\<rparr>
      | Incorrect \<Rightarrow> s\<lparr>message := MsgError, pendingRestores := Suc (pendingRestores s)\<rparr>)"

subsection \<open>Filling a blank\<close>

text \<open>
  A listener returns nothing. The model records which path ran: \<open>Blocked\<close> when the
  handler left before placing a character, \<open>Placed v\<close> when it placed one and
  \<open>checkCompletion\<close> then saw the verdict \<open>v\<close>.
\<close>

datatype fill_result = Blocked | Placed verdict

fun find_from :: "nat \<Rightarrow> ('a \<Rightarrow> bool) \<Rightarrow> 'a list \<Rightarrow> nat option" where
  "find_from k P [] = None"
| "find_from k P (x # xs) = (if P x then Some k else find_from (Suc k) P xs)"

text \<open>
  \<open>dragCharsEl.querySelector('[data-drag-index="..."]')\<close>: the first draggable character
  with that attribute, or \<open>null\<close>. The transferred \<open>dragIndex\<close> is \<open>Some n\<close> for the
  decimal string of \<open>n\<close>, as \<open>dragstart\<close> writes it, and \<open>None\<close> for a string that
  no element carries (the empty string of a drag that did not start on a character of this page).
\<close>

definition querySelector_dragIndex :: "nat option \<Rightarrow> dragchar list \<Rightarrow> nat option" where
  "querySelector_dragIndex di ds =
     (case di of None \<Rightarrow> None | Some n \<Rightarrow> find_from 0 (\<lambda>d. d_dragIndex d = n) ds)"

definition fill_card :: "jsstring \<Rightarrow> card \<Rightarrow> card" where
  "fill_card ch c = c\<lparr>c_textContent := ch, c_filledChar := Some ch, c_filled := Some True,
                      c_className := [ClsCharCard, ClsFilled]\<rparr>"

definition hide :: "dragchar \<Rightarrow> dragchar" where
  "hide d = d\<lparr>d_className := classList_add ClsHidden (d_className d)\<rparr>"

text \<open>
  The \<open>drop\<close> listener of \<open>setupDropZone\<close> (lines 332-367), for a drop on the card at
  \<open>p\<close> that transfers the text \<open>ch\<close> and the drag index \<open>di\<close>. A card without the
  listener does not react.
\<close>

definition onDrop :: "pos \<Rightarrow> jsstring \<Rightarrow> nat option \<Rightarrow> game \<Rightarrow> fill_result \<times> game" where
  "onDrop p ch di s =
     (case card_at s p of
        None \<Rightarrow> (Blocked, s)
      | Some c0 \<Rightarrow>
          if \<not> c_dropZone c0 then (Blocked, s)
          else
            (let c = c0\<lparr>c_className := classList_remove ClsDragOver (c_className c0)\<rparr>;
                 s0 = set_card p c s
             in if c_filled c = Some True then (Blocked, s0)
                else
                  (let dragChar = querySelector_dragIndex di (dragChars s0);
                       s1 = updateUndoButtonState
                              (s0\<lparr>lastDragAction := Some \<lparr>a_card = p, a_dragChar = dragChar, a_char = ch\<rparr>\<rparr>);
                       s2 = set_card p (fill_card ch c) s1;
                       s3 = (case dragChar of None \<Rightarrow> s2 | Some k \<Rightarrow> update_drag k hide s2)
                   in (Placed (evaluate s3), checkCompletion s3))))"

text \<open>
  The \<open>touchend\<close> listener of \<open>setupTouchDrag\<close> (lines 411-450) on the draggable
  character number \<open>k\<close>, the finger lifted over the card at \<open>t\<close> (\<open>None\<close>: over no
  card). Only cards carry the class \<open>empty\<close>.
\<close>

definition clear_drag_over :: "card \<Rightarrow> card" where
  "clear_drag_over c =
     (if ClsCharCard \<in> set (c_className c) \<and> ClsEmpty \<in> set (c_className c)
      then c\<lparr>c_className := classList_remove ClsDragOver (c_className c)\<rparr> else c)"

definition clear_all_drag_over :: "game \<Rightarrow> game" where
  "clear_all_drag_over s = s\<lparr>line1 := map clear_drag_over (line1 s), line2 := map clear_drag_over (line2 s)\<rparr>"

definition onTouchEnd :: "nat \<Rightarrow> pos option \<Rightarrow> game \<Rightarrow> fill_result \<times> game" where
  "onTouchEnd k t s =
     (if \<not> k < length (dragChars s) then (Blocked, s)
      else
        (let s0 = update_drag k (\<lambda>d. d\<lparr>d_className := classList_remove ClsDragging (d_className d)\<rparr>) s;
             below = (case t of None \<Rightarrow> None | Some p \<Rightarrow> card_at s0 p)
         in case below of
              None \<Rightarrow> (Blocked, clear_all_drag_over s0)
            | Some c \<Rightarrow>
                if ClsEmpty \<in> set (c_className c) \<and> c_filled c \<noteq> Some True then
                  (let p = the t;
                       ch = d_char (dragChars s0 ! k);
                       s1 = updateUndoButtonState
                              (s0\<lparr>lastDragAction := Some \<lparr>a_card = p, a_dragChar = Some k, a_char = ch\<rparr>\<rparr>);
                       s2 = set_card p (fill_card ch c) s1;
                       s3 = update_drag k hide s2
                   in (Placed (evaluate s3), clear_all_drag_over (checkCompletion s3)))
                else (Blocked, clear_all_drag_over s0)))"

subsection \<open>What a player sees of a round\<close>

text \<open>
  The assignment of every card (\<open>dataset.filled\<close>, \<open>dataset.filledChar\<close> and the text
  shown), and for every draggable character whether it is consumed (hidden).
\<close>

definition assignments :: "game \<Rightarrow> (bool option \<times> jsstring option \<times> jsstring) list" where
  "assignments s = map (\<lambda>c. (c_filled c, c_filledChar c, c_textContent c)) (cards s)"

definition consumed :: "game \<Rightarrow> bool list" where
  "consumed s = map (\<lambda>d. ClsHidden \<in> set (d_className d)) (dragChars s)"

subsection \<open>Restoring the snapshot\<close>

definition clearMessage :: "game \<Rightarrow> game" where
  "clearMessage s = s\<lparr>message := MsgNone\<rparr>"

definition setupDropZone :: "card \<Rightarrow> card" where
  "setupDropZone c = c\<lparr>c_dropZone := True\<rparr>"

text \<open>What \<open>innerHTML\<close> keeps of a card: everything but its listeners.\<close>

definition serialize :: "card \<Rightarrow> card" where
  "serialize c = c\<lparr>c_dropZone := False\<rparr>"

text \<open>\<open>saveStateR\<close> (lines 489-496).\<close>

definition saveStateR :: "game \<Rightarrow> game" where
  "saveStateR s = s\<lparr>stateR := Some \<lparr>line1HTML = map serialize (line1 s),
                                     line2HTML = map serialize (line2 s),
                                     dragCharsHTML = dragChars s,
                                     snap_removedChars = removedChars s\<rparr>\<rparr>"

text \<open>
  \<open>rebindEvents\<close> (lines 516-556): the undo record is dropped, and every card with the
  classes \<open>char-card\<close> and \<open>empty\<close> becomes a drop zone again. The listeners for
  speech and for dragging go back onto every element and are not part of the record.
\<close>

definition rebind_card :: "card \<Rightarrow> card" where
  "rebind_card c =
     (if ClsCharCard \<in> set (c_className c) \<and> ClsEmpty \<in> set (c_className c) then setupDropZone c else c)"

definition rebindEvents :: "game \<Rightarrow> game" where
  "rebindEvents s =
     (let s1 = updateUndoButtonState (s\<lparr>lastDragAction := None\<rparr>)
      in s1\<lparr>line1 := map rebind_card (line1 s1), line2 := map rebind_card (line2 s1)\<rparr>)"

text \<open>\<open>restoreStateR\<close> (lines 501-511).\<close>

definition restoreStateR :: "game \<Rightarrow> game" where
  "restoreStateR s =
     (case stateR s of
        None \<Rightarrow> s
      | Some r \<Rightarrow>
          clearMessage (rebindEvents (s\<lparr>line1 := line1HTML r, line2 := line2HTML r,
                                         dragChars := dragCharsHTML r\<rparr>)))"

subsection \<open>Round generation\<close>

text \<open>
  \<open>Math.random()\<close> is an input: the list \<open>rs\<close> holds one natural number for each
  call still to come, and \<open>Math.floor(Math.random() * n)\<close> is the next number modulo
  \<open>n\<close>, which ranges over the same values \<open>0 .. n - 1\<close> (and is \<open>0\<close> for \<open>n = 0\<close>).
  A list that runs out gives \<open>0\<close>.
\<close>

definition random_below :: "nat \<Rightarrow> nat list \<Rightarrow> nat \<times> nat list" where
  "random_below n rs =
     (case rs of [] \<Rightarrow> (0, []) | r # rs' \<Rightarrow> ((if n = 0 then 0 else r mod n), rs'))"

definition default_line1 :: jsstring where
  "default_line1 = [22826, 38451, 21704, 21704, 31505]"

definition default_line2 :: jsstring where
  "default_line2 = [32972, 19978, 23567, 20070, 21253]"

definition default_line3 :: jsstring where
  "default_line3 = [36335, 19978, 36935, 33457, 29483]"

definition default_line4 :: jsstring where
  "default_line4 = [34676, 34678, 39134, 21568, 39134]"

text \<open>
  \<open>selectRandomLines\<close> (lines 159-173). A section with fewer than two lines would put
  \<open>undefined\<close> into \<open>currentLines\<close>, and \<open>renderPoem\<close>, the next statement of the
  only caller, throws a TypeError reading its \<open>length\<close>; the model raises it here.
\<close>

definition selectRandomLines :: "nat list \<Rightarrow> game \<Rightarrow> (error + game) \<times> nat list" where
  "selectRandomLines rs s =
     (if length (sections s) = 0 then (Inr (s\<lparr>currentLines := [default_line1, default_line2]\<rparr>), rs)
      else
        (let (sectionIndex, rs1) = random_below (length (sections s)) rs;
             section = sections s ! sectionIndex;
             (startIndex, rs2) = random_below (length section - 1) rs1
         in if length section < 2 then (Inl TypeError, rs2)
            else (Inr (s\<lparr>currentLines := [section ! startIndex, section ! (startIndex + 1)]\<rparr>), rs2)))"

definition createCharCard :: "jsstring \<Rightarrow> nat \<Rightarrow> nat \<Rightarrow> game \<Rightarrow> card" where
  "createCharCard char lineIndex charIndex s =
     \<lparr>c_className = [ClsCharCard, ClsFilled], c_textContent = char, c_line = lineIndex,
      c_index = charIndex, c_char = char, c_lineText = currentLines s ! lineIndex,
      c_filled = None, c_filledChar = None, c_dropZone = False\<rparr>"

text \<open>\<open>renderPoem\<close> (lines 178-196): one card for each code unit of each line.\<close>

definition renderPoem :: "game \<Rightarrow> game" where
  "renderPoem s =
     s\<lparr>line1 := map (\<lambda>i. createCharCard [currentLines s ! 0 ! i] 0 i s) [0..<length (currentLines s ! 0)],
       line2 := map (\<lambda>i. createCharCard [currentLines s ! 1 ! i] 1 i s) [0..<length (currentLines s ! 1)]\<rparr>"

definition allPositions :: "int \<Rightarrow> pos list" where
  "allPositions n = concat (map (\<lambda>line. map (\<lambda>index. (line, index)) [0..<nat n]) [0..<2])"

text \<open>
  The shuffle loop \<open>for (i = length - 1; i > 0; i--)\<close> with its swap of \<open>xs[i]\<close> and
  \<open>xs[j]\<close>, \<open>j = Math.floor(Math.random() * (i + 1))\<close>.
\<close>

fun fisher_yates :: "nat \<Rightarrow> nat list \<Rightarrow> 'a list \<Rightarrow> 'a list \<times> nat list" where
  "fisher_yates 0 rs xs = (xs, rs)"
| "fisher_yates (Suc i) rs xs =
     (let (j, rs') = random_below (Suc i + 1) rs
      in fisher_yates i rs' (xs[Suc i := xs ! j, j := xs ! Suc i]))"

definition shuffle :: "nat list \<Rightarrow> 'a list \<Rightarrow> 'a list \<times> nat list" where
  "shuffle rs xs = fisher_yates (length xs - 1) rs xs"

text \<open>
  \<open>xs.slice(0, e)\<close> for an integer \<open>e\<close>: a negative \<open>e\<close> counts from the end, and the
  end is clamped to the length.
\<close>

definition slice0 :: "int \<Rightarrow> 'a list \<Rightarrow> 'a list" where
  "slice0 e xs =
     take (nat (if e < 0 then max (int (length xs) + e) 0 else min e (int (length xs)))) xs"

definition blank_out :: "card \<Rightarrow> card" where
  "blank_out c = setupDropZone (c\<lparr>c_className := [ClsCharCard, ClsEmpty], c_textContent := [],
                                    c_filled := Some False\<rparr>)"

text \<open>
  The \<open>forEach\<close> over the positions to remove (lines 243-263). \<open>lineEl.children[i]\<close>
  is \<open>undefined\<close> when the line has no card number \<open>i\<close>, and reading its \<open>dataset\<close>
  throws a TypeError.
\<close>

fun remove_each :: "pos list \<Rightarrow> game \<Rightarrow> error + game" where
  "remove_each [] s = Inr s"
| "remove_each (p # ps) s =
     (case card_at s p of
        None \<Rightarrow> Inl TypeError
      | Some el \<Rightarrow>
          remove_each ps
            (set_card p (blank_out el)
               (s\<lparr>removedChars := removedChars s @
                     [\<lparr>r_char = c_char el, r_line = fst p, r_index = snd p,
                       r_lineText = currentLines s ! fst p\<rparr>]\<rparr>)))"

text \<open>\<open>renderDragChars\<close> (lines 279-317).\<close>

definition renderDragChars :: "removed list \<Rightarrow> game \<Rightarrow> game" where
  "renderDragChars chars s =
     s\<lparr>dragChars := map (\<lambda>(index, charInfo).
                          \<lparr>d_className = [ClsDragChar], d_textContent = r_char charInfo,
                           d_char = r_char charInfo, d_dragIndex = index,
                           d_lineText = r_lineText charInfo\<rparr>)
                        (enumerate 0 chars)\<rparr>"

text \<open>\<open>removeRandomChars\<close> (lines 223-274).\<close>

definition removeRandomChars :: "nat list \<Rightarrow> game \<Rightarrow> error + game" where
  "removeRandomChars rs s =
     (let s0 = s\<lparr>removedChars := []\<rparr>;
          (shuffled, rs1) = shuffle rs (allPositions (lineLength s0));
          positionsToRemove = slice0 (removeCount s0) shuffled
      in case remove_each positionsToRemove s0 of
           Inl e \<Rightarrow> Inl e
         | Inr s1 \<Rightarrow>
             (let (shuffledChars, rs2) = shuffle rs1 (removedChars s1)
              in Inr (renderDragChars shuffledChars s1)))"

text \<open>
  \<open>startGame\<close> (lines 146-154). An exception leaves the method at once; what the page
  looks like after it is not modelled.
\<close>

definition startGame :: "nat list \<Rightarrow> game \<Rightarrow> error + game" where
  "startGame rs s =
     (case selectRandomLines rs (s\<lparr>lastDragAction := None\<rparr>) of
        (Inl e, rs1) \<Rightarrow> Inl e
      | (Inr s1, rs1) \<Rightarrow>
          (case removeRandomChars rs1 (renderPoem s1) of
             Inl e \<Rightarrow> Inl e
           | Inr s2 \<Rightarrow> Inr (updateUndoButtonState (clearMessage (saveStateR s2)))))"

subsection \<open>Construction and loading\<close>

text \<open>
  The constructor (lines 23-35) with the two entries of \<open>config\<close>, each absent
  (\<open>None\<close>) or an integer; \<open>x || d\<close> is \<open>d\<close> for an absent \<open>x\<close> and for \<open>0\<close>.
  The page starts with empty containers.
\<close>

definition or_default :: "int option \<Rightarrow> int \<Rightarrow> int" where
  "or_default x d = (case x of None \<Rightarrow> d | Some n \<Rightarrow> if n = 0 then d else n)"

definition new_game :: "int option \<Rightarrow> int option \<Rightarrow> game" where
  "new_game cfg_lineLength cfg_removeCount =
     \<lparr>sections = [], currentLines = [], removedChars = [], stateR = None, lastDragAction = None,
      lineLength = or_default cfg_lineLength 5, removeCount = or_default cfg_removeCount 4,
      line1 = [], line2 = [], dragChars = [], message = MsgNone, undoDisabled = False,
      pendingRestores = 0\<rparr>"

text \<open>The characters that \<open>String.prototype.trim\<close> strips (white space and line ends).\<close>

definition js_space :: "jschar \<Rightarrow> bool" where
  "js_space c \<longleftrightarrow>
     c \<in> {9, 10, 11, 12, 13, 32, 160, 5760, 8232, 8233, 8239, 8287, 12288, 65279}
     \<or> (8192 \<le> c \<and> c \<le> 8202)"

definition trim :: "jsstring \<Rightarrow> jsstring" where
  "trim s = rev (dropWhile js_space (rev (dropWhile js_space s)))"

text \<open>\<open>s.split(sep)\<close> for a separator that is not empty.\<close>

function split_from :: "jsstring \<Rightarrow> jsstring \<Rightarrow> jsstring \<Rightarrow> jsstring list" where
  "split_from sep acc s =
     (if s = [] then [acc]
      else if sep \<noteq> [] \<and> take (length sep) s = sep
           then acc # split_from sep [] (List.drop (length sep) s)
           else split_from sep (acc @ [hd s]) (tl s))"
  by pat_completeness auto
termination
  by (relation "measure (\<lambda>(sep, acc, s). length s)") auto

declare split_from.simps [simp del]

definition js_split :: "jsstring \<Rightarrow> jsstring \<Rightarrow> jsstring list" where
  "js_split sep s = split_from sep [] s"

text \<open>
  \<open>loadPoems\<close> (lines 46-67). \<open>fetched\<close> is the text of \<open>poet.txt\<close>, or \<open>None\<close>
  when \<open>fetch\<close> or \<open>response.text()\<close> rejects.
\<close>

definition parse_sections :: "int \<Rightarrow> jsstring \<Rightarrow> jsstring list list" where
  "parse_sections n text =
     filter (\<lambda>section. length section \<ge> 2)
       (map (\<lambda>section. filter (\<lambda>line. int (length (trim line)) = n) (js_split [10] (trim section)))
            (js_split [61, 61, 61] (trim text)))"

definition loadPoems :: "jsstring option \<Rightarrow> game \<Rightarrow> game" where
  "loadPoems fetched s =
     (case fetched of
        Some text \<Rightarrow> s\<lparr>sections := parse_sections (lineLength s) text\<rparr>
      | None \<Rightarrow> s\<lparr>sections := [[default_line1, default_line2, default_line3, default_line4]]\<rparr>)"

text \<open>\<open>init\<close> (lines 37-41).\<close>

definition init :: "jsstring option \<Rightarrow> nat list \<Rightarrow> game \<Rightarrow> error + game" where
  "init fetched rs s = startGame rs (loadPoems fetched s)"

subsection \<open>The page as a state machine\<close>

text \<open>
  What can happen to a running game: a drop on a card, a finger lifted from a draggable
  character, a click on the undo or on the restart button, and a scheduled restore
  coming due. The display delay is the time between the \<open>Incorrect\<close> verdict that
  schedules a restore and its \<open>Timer\<close> event; anything may happen in between.
\<close>

datatype event =
    Drop pos jsstring "nat option"
  | TouchEnd nat "pos option"
  | Undo
  | Restart "nat list"
  | Timer

definition onTimer :: "game \<Rightarrow> game" where
  "onTimer s =
     (if pendingRestores s = 0 then s
      else restoreStateR (s\<lparr>pendingRestores := pendingRestores s - 1\<rparr>))"

fun step :: "event \<Rightarrow> game \<Rightarrow> error + game" where
  "step (Drop p ch di) s = Inr (snd (onDrop p ch di s))"
| "step (TouchEnd k t) s = Inr (snd (onTouchEnd k t s))"
| "step Undo s = Inr (snd (undoLastDrag s))"
| "step (Restart rs) s = startGame rs s"
| "step Timer s = Inr (onTimer s)"

fun exec :: "event list \<Rightarrow> game \<Rightarrow> error + game" where
  "exec [] s = Inr s"
| "exec (e # es) s = (case step e s of Inl err \<Rightarrow> Inl err | Inr s' \<Rightarrow> exec es s')"

subsection \<open>A sample round\<close>

text \<open>
  The game as the page builds it (no configuration, \<open>poet.txt\<close> not loaded), and the
  round of the built-in lines 1 and 2 with the blanks (0,3), (1,0), (1,4) and (0,1); the
  draggable characters come out in the order of the blanks (1,0), (0,1), (0,3), (1,4).
\<close>

definition demo_game :: game where
  "demo_game = loadPoems None (new_game None None)"

definition demo_round :: game where
  "demo_round = projr (startGame [0, 0, 4, 7, 7, 2, 2, 0, 5, 6, 8, 2, 3, 2] demo_game)"

text \<open>The same round after the character of blank (0,1) was dropped onto it.\<close>

definition demo_one_fill :: game where
  "demo_one_fill = snd (onDrop (0, 1) [38451] (Some 1) demo_round)"

subsection \<open>The blank layout of a round\<close>

text \<open>The positions that \<open>removeRandomChars\<close> recorded as removed.\<close>

definition blankPositions :: "game \<Rightarrow> pos list" where
  "blankPositions s = map (\<lambda>r. (r_line r, r_index r)) (removedChars s)"


text \<open>
  A game configured with \<open>removeCount = 11\<close>, more than the ten positions of two
  lines of five, after \<open>poet.txt\<close> failed to load; and the same game with the first
  two built-in lines chosen and rendered.
\<close>

definition eleven_game :: game where
  "eleven_game = loadPoems None (new_game None (Some 11))"

definition eleven_rendered :: game where
  "eleven_rendered = renderPoem (projr (fst (selectRandomLines [] eleven_game)))"

subsection \<open>Well-formed pages and rounds\<close>

text \<open>The cards that \<open>removeRandomChars\<close> turned into blanks carry \<open>data-filled\<close>.\<close>

definition blankCards :: "game \<Rightarrow> card list" where
  "blankCards s = filter (\<lambda>c. c_filled c \<noteq> None) (cards s)"

text \<open>
  How the classes, the \<open>data-filled\<close> attribute and the drop listener of a card go
  together in a running game.
\<close>

definition card_ok :: "card \<Rightarrow> bool" where
  "card_ok c \<longleftrightarrow>
     ClsCharCard \<in> set (c_className c)
     \<and> ((ClsEmpty \<in> set (c_className c)) = (c_filled c = Some False))
     \<and> (\<not> c_dropZone c \<or> c_filled c \<noteq> None)"

definition page_ok :: "game \<Rightarrow> bool" where
  "page_ok s \<longleftrightarrow>
     list_all card_ok (cards s)
     \<and> (case stateR s of
          None \<Rightarrow> True
        | Some r \<Rightarrow> list_all card_ok (line1HTML r) \<and> list_all card_ok (line2HTML r))"

text \<open>A card as \<open>createCharCard\<close> makes it, and a card as the blanking leaves it.\<close>

definition fresh_card :: "card \<Rightarrow> bool" where
  "fresh_card c \<longleftrightarrow>
     c_className c = [ClsCharCard, ClsFilled] \<and> c_filled c = None \<and> c_filledChar c = None
     \<and> \<not> c_dropZone c"

definition blank_card :: "card \<Rightarrow> bool" where
  "blank_card c \<longleftrightarrow>
     c_className c = [ClsCharCard, ClsEmpty] \<and> c_textContent c = [] \<and> c_filled c = Some False
     \<and> c_filledChar c = None \<and> c_dropZone c"

text \<open>The fields of the game that belong to the round and not to its progress.\<close>

definition round_fields ::
  "game \<Rightarrow> snapshot option \<times> jsstring list \<times> removed list \<times> jsstring list list \<times> int \<times> int" where
  "round_fields s = (stateR s, currentLines s, removedChars s, sections s, lineLength s, removeCount s)"

fun is_Restart :: "event \<Rightarrow> bool" where
  "is_Restart (Restart rs) = True"
| "is_Restart e = False"


text \<open>
  The state in which \<open>startGame\<close> leaves the game: the snapshot is the page without
  its listeners, every card is untouched or freshly blanked, every draggable character
  is on offer, and nothing is recorded for undo.
\<close>

definition start_ok :: "game \<Rightarrow> bool" where
  "start_ok s \<longleftrightarrow>
     stateR s = Some \<lparr>line1HTML = map serialize (line1 s), line2HTML = map serialize (line2 s),
                      dragCharsHTML = dragChars s, snap_removedChars = removedChars s\<rparr>
     \<and> list_all (\<lambda>c. fresh_card c \<or> blank_card c) (cards s)
     \<and> list_all (\<lambda>d. d_className d = [ClsDragChar]) (dragChars s)
     \<and> lastDragAction s = None \<and> message s = MsgNone \<and> undoDisabled s"

subsection \<open>A wrong attempt and a restart\<close>

text \<open>
  The sample round filled completely, with the characters of the blanks (1,0) and (1,4)
  swapped: the verdict is \<open>Incorrect\<close> and one restore is scheduled.
\<close>

definition demo_wrong_fills :: "event list" where
  "demo_wrong_fills =
     [Drop (0, 1) [38451] (Some 1), Drop (0, 3) [21704] (Some 2),
      Drop (1, 0) [21253] (Some 3), Drop (1, 4) [32972] (Some 0)]"

definition demo_wrong :: game where
  "demo_wrong = projr (exec demo_wrong_fills demo_round)"



text \<open>
  What holds of the game from its construction on, whatever happens to it: the page is
  well formed, there are as many blank cards on the page and in the snapshot as
  positions were removed, and the recorded action points at a blank card.
\<close>

definition round_inv :: "game \<Rightarrow> bool" where
  "round_inv s \<longleftrightarrow>
     page_ok s
     \<and> length (blankCards s) = length (removedChars s)
     \<and> (case stateR s of
          None \<Rightarrow> True
        | Some r \<Rightarrow> length (filter (\<lambda>c. c_filled c \<noteq> None) (line1HTML r @ line2HTML r))
                    = length (removedChars s))
     \<and> (case lastDragAction s of
          None \<Rightarrow> True
        | Some a \<Rightarrow> (case card_at s (a_card a) of None \<Rightarrow> False | Some c \<Rightarrow> c_filled c \<noteq> None))"

text \<open>
  The round of the game with \<open>removeCount = 11\<close>: all ten positions are blank. Then
  every character is put back where it came from.
\<close>

definition eleven_round :: game where
  "eleven_round = projr (startGame [] eleven_game)"

definition eleven_all_correct :: game where
  "eleven_all_correct =
     projr (exec [TouchEnd 8 (Some (0, 0)), TouchEnd 9 (Some (0, 1)), TouchEnd 0 (Some (0, 2)),
                  TouchEnd 1 (Some (0, 3)), TouchEnd 2 (Some (0, 4)), TouchEnd 3 (Some (1, 0)),
                  TouchEnd 4 (Some (1, 1)), TouchEnd 5 (Some (1, 2)), TouchEnd 6 (Some (1, 3)),
                  TouchEnd 7 (Some (1, 4))] eleven_round)"

text \<open>The sample round with every blank filled with its own character.\<close>

definition demo_right_fills :: "event list" where
  "demo_right_fills =
     [Drop (0, 1) [38451] (Some 1), Drop (0, 3) [21704] (Some 2),
      Drop (1, 0) [32972] (Some 0), Drop (1, 4) [21253] (Some 3)]"

definition demo_right :: game where
  "demo_right = projr (exec demo_right_fills demo_round)"

subsection \<open>A configuration the built-in lines do not fit\<close>

text \<open>
  A game configured with \<open>lineLength = 6\<close>, and a \<open>poet.txt\<close> of two lines of five
  characters (the first two built-in lines).
\<close>

definition six_game :: game where
  "six_game = new_game (Some 6) None"

definition two_lines_text :: jsstring where
  "two_lines_text = [22826, 38451, 21704, 21704, 31505, 10, 32972, 19978, 23567, 20070, 21253]"

section \<open>Properties\<close>

subsection \<open>Cards, draggable characters and the fields a method leaves alone\<close>

lemma card_at_Some_iff:
  "card_at s p = Some c \<longleftrightarrow> snd p < length (lineEl s (fst p)) \<and> c = lineEl s (fst p) ! snd p"
  by (auto simp: card_at_def)

lemma card_at_set_card_same:
  "card_at s p = Some c \<Longrightarrow> card_at (set_card p c' s) p = Some c'"
  by (auto simp: card_at_def set_card_def lineEl_def split: if_splits)

lemma card_at_set_card_other:
  "(fst q = 0) \<noteq> (fst p = 0) \<or> snd q \<noteq> snd p \<Longrightarrow> card_at (set_card p c' s) q = card_at s q"
  by (auto simp: card_at_def set_card_def lineEl_def)

lemma map_list_update_same:
  "i < length xs \<Longrightarrow> f y = f (xs ! i) \<Longrightarrow> map f (xs[i := y]) = map f xs"
  by (simp add: map_update list_update_same_conv)

lemma set_card_fields [simp]:
  "dragChars (set_card p c s) = dragChars s"
  "lastDragAction (set_card p c s) = lastDragAction s"
  "message (set_card p c s) = message s"
  "pendingRestores (set_card p c s) = pendingRestores s"
  "stateR (set_card p c s) = stateR s"
  "currentLines (set_card p c s) = currentLines s"
  "removedChars (set_card p c s) = removedChars s"
  "removeCount (set_card p c s) = removeCount s"
  "lineLength (set_card p c s) = lineLength s"
  "sections (set_card p c s) = sections s"
  "undoDisabled (set_card p c s) = undoDisabled s"
  by (simp_all add: set_card_def)

lemma update_drag_fields [simp]:
  "line1 (update_drag k f s) = line1 s"
  "line2 (update_drag k f s) = line2 s"
  "lastDragAction (update_drag k f s) = lastDragAction s"
  "message (update_drag k f s) = message s"
  "pendingRestores (update_drag k f s) = pendingRestores s"
  "stateR (update_drag k f s) = stateR s"
  "currentLines (update_drag k f s) = currentLines s"
  "removedChars (update_drag k f s) = removedChars s"
  "removeCount (update_drag k f s) = removeCount s"
  "lineLength (update_drag k f s) = lineLength s"
  "sections (update_drag k f s) = sections s"
  "undoDisabled (update_drag k f s) = undoDisabled s"
  by (simp_all add: update_drag_def)

lemma card_at_update_drag [simp]: "card_at (update_drag k f s) p = card_at s p"
  by (simp add: card_at_def lineEl_def)

lemma cards_update_drag [simp]: "cards (update_drag k f s) = cards s"
  by (simp add: cards_def)

lemma assignments_update_drag [simp]: "assignments (update_drag k f s) = assignments s"
  by (simp add: assignments_def)

lemma assignments_set_card:
  assumes "card_at s p = Some c"
    and "c_filled c' = c_filled c" "c_filledChar c' = c_filledChar c" "c_textContent c' = c_textContent c"
  shows "assignments (set_card p c' s) = assignments s"
  using assms
  by (auto simp: assignments_def cards_def set_card_def card_at_def lineEl_def
      map_list_update_same split: if_splits)

lemma consumed_set_card [simp]: "consumed (set_card p c s) = consumed s"
  by (simp add: consumed_def)

lemma consumed_update_drag:
  "(\<And>d. (ClsHidden \<in> set (d_className (f d))) = (ClsHidden \<in> set (d_className d))) \<Longrightarrow>
   consumed (update_drag k f s) = consumed s"
  by (simp add: consumed_def update_drag_def map_list_update_same)

lemma clear_all_drag_over_fields [simp]:
  "dragChars (clear_all_drag_over s) = dragChars s"
  "lastDragAction (clear_all_drag_over s) = lastDragAction s"
  "message (clear_all_drag_over s) = message s"
  "pendingRestores (clear_all_drag_over s) = pendingRestores s"
  "stateR (clear_all_drag_over s) = stateR s"
  by (simp_all add: clear_all_drag_over_def)

lemma assignments_clear_all_drag_over [simp]:
  "assignments (clear_all_drag_over s) = assignments s"
  by (simp add: assignments_def cards_def clear_all_drag_over_def clear_drag_over_def comp_def)

lemma consumed_clear_all_drag_over [simp]: "consumed (clear_all_drag_over s) = consumed s"
  by (simp add: consumed_def)

lemma checkCompletion_fields [simp]:
  "line1 (checkCompletion s) = line1 s"
  "line2 (checkCompletion s) = line2 s"
  "dragChars (checkCompletion s) = dragChars s"
  "lastDragAction (checkCompletion s) = lastDragAction s"
  "stateR (checkCompletion s) = stateR s"
  "currentLines (checkCompletion s) = currentLines s"
  "removedChars (checkCompletion s) = removedChars s"
  "removeCount (checkCompletion s) = removeCount s"
  "lineLength (checkCompletion s) = lineLength s"
  "sections (checkCompletion s) = sections s"
  "undoDisabled (checkCompletion s) = undoDisabled s"
  by (simp_all add: checkCompletion_def split: verdict.splits)

lemma updateUndoButtonState_fields [simp]:
  "line1 (updateUndoButtonState s) = line1 s"
  "line2 (updateUndoButtonState s) = line2 s"
  "dragChars (updateUndoButtonState s) = dragChars s"
  "lastDragAction (updateUndoButtonState s) = lastDragAction s"
  "stateR (updateUndoButtonState s) = stateR s"
  "currentLines (updateUndoButtonState s) = currentLines s"
  "removedChars (updateUndoButtonState s) = removedChars s"
  "removeCount (updateUndoButtonState s) = removeCount s"
  "lineLength (updateUndoButtonState s) = lineLength s"
  "sections (updateUndoButtonState s) = sections s"
  "message (updateUndoButtonState s) = message s"
  "pendingRestores (updateUndoButtonState s) = pendingRestores s"
  by (simp_all add: updateUndoButtonState_def)

lemma card_at_cong:
  "line1 s' = line1 s \<Longrightarrow> line2 s' = line2 s \<Longrightarrow> card_at s' p = card_at s p"
  by (simp add: card_at_def lineEl_def)

lemma cards_cong: "line1 s' = line1 s \<Longrightarrow> line2 s' = line2 s \<Longrightarrow> cards s' = cards s"
  by (simp add: cards_def)

lemma consumed_cong: "dragChars s' = dragChars s \<Longrightarrow> consumed s' = consumed s"
  by (simp add: consumed_def)

lemma card_at_checkCompletion [simp]: "card_at (checkCompletion s) p = card_at s p"
  by (rule card_at_cong) simp_all

lemma card_at_updateUndoButtonState [simp]: "card_at (updateUndoButtonState s) p = card_at s p"
  by (rule card_at_cong) simp_all

lemma card_at_lastDragAction_update [simp]: "card_at (s\<lparr>lastDragAction := a\<rparr>) p = card_at s p"
  by (rule card_at_cong) simp_all

lemma length_filter_update_new:
  "i < length xs \<Longrightarrow> \<not> P (xs ! i) \<Longrightarrow> P y \<Longrightarrow>
   length (filter P (xs[i := y])) = Suc (length (filter P xs))"
  by (induction xs arbitrary: i) (auto simp: nth_Cons split: nat.splits)



subsection \<open>Filling an occupied blank\<close>

text \<open>
  Claim C6. A fill whose target blank is already filled is a blocked no-op, through the
  drop listener and through the touch listener alike: the handler takes its blocked
  path, no assignment changes, no candidate is consumed, \<open>lastDragAction\<close> stays, and
  no verdict is shown or scheduled.
\<close>

theorem fill_on_filled_blank_is_blocked:
  assumes "card_at s p = Some c" and "c_filled c = Some True"
  shows "fst (onDrop p ch di s) = Blocked
       \<and> assignments (snd (onDrop p ch di s)) = assignments s
       \<and> consumed (snd (onDrop p ch di s)) = consumed s
       \<and> lastDragAction (snd (onDrop p ch di s)) = lastDragAction s
       \<and> message (snd (onDrop p ch di s)) = message s
       \<and> pendingRestores (snd (onDrop p ch di s)) = pendingRestores s
       \<and> fst (onTouchEnd k (Some p) s) = Blocked
       \<and> assignments (snd (onTouchEnd k (Some p) s)) = assignments s
       \<and> consumed (snd (onTouchEnd k (Some p) s)) = consumed s
       \<and> lastDragAction (snd (onTouchEnd k (Some p) s)) = lastDragAction s
       \<and> message (snd (onTouchEnd k (Some p) s)) = message s
       \<and> pendingRestores (snd (onTouchEnd k (Some p) s)) = pendingRestores s"
proof -
  have d: "onDrop p ch di s = (Blocked, s) \<or>
           onDrop p ch di s = (Blocked, set_card p (c\<lparr>c_className := classList_remove ClsDragOver (c_className c)\<rparr>) s)"
    using assms by (simp add: onDrop_def Let_def)
  have a: "assignments (set_card p (c\<lparr>c_className := classList_remove ClsDragOver (c_className c)\<rparr>) s) = assignments s"
    using assms(1) by (rule assignments_set_card) simp_all
  have t: "onTouchEnd k (Some p) s = (Blocked, s) \<or>
           onTouchEnd k (Some p) s = (Blocked, clear_all_drag_over (update_drag k (\<lambda>d. d\<lparr>d_className := classList_remove ClsDragging (d_className d)\<rparr>) s))"
    using assms by (simp add: onTouchEnd_def Let_def)
  have h: "consumed (update_drag k (\<lambda>d. d\<lparr>d_className := classList_remove ClsDragging (d_className d)\<rparr>) s) = consumed s"
    by (rule consumed_update_drag) (simp add: classList_remove_def)
  from d a t h show ?thesis by auto
qed


theorem fill_on_filled_blank_is_blocked_witness:
  "card_at demo_one_fill (0, 1) = Some (the (card_at demo_one_fill (0, 1)))
   \<and> c_filled (the (card_at demo_one_fill (0, 1))) = Some True
   \<and> fst (onDrop (0, 1) [19978] (Some 1) demo_one_fill) = Blocked
   \<and> assignments (snd (onDrop (0, 1) [19978] (Some 1) demo_one_fill)) = assignments demo_one_fill
   \<and> consumed (snd (onDrop (0, 1) [19978] (Some 1) demo_one_fill)) = consumed demo_one_fill
   \<and> lastDragAction (snd (onDrop (0, 1) [19978] (Some 1) demo_one_fill)) = lastDragAction demo_one_fill
   \<and> fst (onTouchEnd 1 (Some (0, 1)) demo_one_fill) = Blocked
   \<and> assignments (snd (onTouchEnd 1 (Some (0, 1)) demo_one_fill)) = assignments demo_one_fill
   \<and> consumed (snd (onTouchEnd 1 (Some (0, 1)) demo_one_fill)) = consumed demo_one_fill
   \<and> lastDragAction (snd (onTouchEnd 1 (Some (0, 1)) demo_one_fill)) = lastDragAction demo_one_fill"
proof -
  have h1: "card_at demo_one_fill (0, 1) = Some (the (card_at demo_one_fill (0, 1)))"
    by code_simp
  have h2: "c_filled (the (card_at demo_one_fill (0, 1))) = Some True"
    by code_simp
  show ?thesis
    using h1 h2 fill_on_filled_blank_is_blocked [OF h1 h2, of "[19978]" "Some 1" 1] by simp
qed



subsection \<open>Undo\<close>


lemma lastDragAction_undoLastDrag [simp]: "lastDragAction (snd (undoLastDrag s)) = None"
  by (simp add: undoLastDrag_def Let_def split: option.splits)






subsection \<open>A fill that names no candidate\<close>

lemma length_filter_update_same:
  "i < length xs \<Longrightarrow> P y = P (xs ! i) \<Longrightarrow>
   length (filter P (xs[i := y])) = length (filter P xs)"
  by (induction xs arbitrary: i) (auto simp: nth_Cons split: nat.splits)








subsection \<open>Round generation\<close>

lemma random_below_less: "0 < n \<Longrightarrow> fst (random_below n rs) < n"
  by (simp add: random_below_def split: list.splits)

lemma fisher_yates_perm:
  "i < length xs \<Longrightarrow>
   length (fst (fisher_yates i rs xs)) = length xs
   \<and> set (fst (fisher_yates i rs xs)) = set xs
   \<and> distinct (fst (fisher_yates i rs xs)) = distinct xs"
proof (induction i arbitrary: rs xs)
  case 0
  then show ?case by simp
next
  case (Suc i)
  obtain j rs' where r: "random_below (Suc i + 1) rs = (j, rs')"
    by (cases "random_below (Suc i + 1) rs")
  have "j < Suc i + 1"
    using random_below_less [of "Suc i + 1" rs] r by simp
  then have j: "j < length xs" using Suc.prems by simp
  let ?ys = "xs[Suc i := xs ! j, j := xs ! Suc i]"
  have "i < length ?ys" using Suc.prems by simp
  from Suc.IH [OF this, of rs'] show ?case
    using r Suc.prems j by (simp add: set_swap distinct_swap)
qed

lemma shuffle_perm:
  "length (fst (shuffle rs xs)) = length xs
   \<and> set (fst (shuffle rs xs)) = set xs
   \<and> distinct (fst (shuffle rs xs)) = distinct xs"
proof (cases xs)
  case Nil
  then show ?thesis by (simp add: shuffle_def)
next
  case (Cons x xs')
  then have "length xs - 1 < length xs" by simp
  from fisher_yates_perm [OF this] show ?thesis by (simp add: shuffle_def)
qed

lemma allPositions_props:
  "distinct (allPositions n)"
  "set (allPositions n) = {p. fst p < 2 \<and> int (snd p) < n}"
  "length (allPositions n) = 2 * nat n"
proof -
  have u: "[0..<2] = [0, Suc 0]" by (simp add: upt_rec)
  show "distinct (allPositions n)"
    by (auto simp: allPositions_def u distinct_map inj_on_def)
  have "\<And>a. a < 2 \<Longrightarrow> a = 0 \<or> a = Suc 0" by arith
  then show "set (allPositions n) = {p. fst p < 2 \<and> int (snd p) < n}"
    by (fastforce simp: allPositions_def u image_iff)
  show "length (allPositions n) = 2 * nat n"
    by (simp add: allPositions_def u)
qed

lemma length_slice0:
  "int (length (slice0 e xs)) =
     (if e < 0 then max (int (length xs) + e) 0 else min e (int (length xs)))"
  by (auto simp: slice0_def)

lemma remove_each_removedChars:
  "remove_each ps s = Inr s' \<Longrightarrow> blankPositions s' = blankPositions s @ ps"
proof (induction ps arbitrary: s)
  case Nil
  then show ?case by simp
next
  case (Cons p ps)
  then obtain el where el: "card_at s p = Some el"
    by (auto split: option.splits)
  let ?s1 = "set_card p (blank_out el)
               (s\<lparr>removedChars := removedChars s @
                     [\<lparr>r_char = c_char el, r_line = fst p, r_index = snd p,
                       r_lineText = currentLines s ! fst p\<rparr>]\<rparr>)"
  from Cons.prems el have "remove_each ps ?s1 = Inr s'" by simp
  from Cons.IH [OF this] show ?case by (simp add: blankPositions_def)
qed

lemma remove_each_config:
  "remove_each ps s = Inr s' \<Longrightarrow>
   lineLength s' = lineLength s \<and> removeCount s' = removeCount s \<and> currentLines s' = currentLines s"
proof (induction ps arbitrary: s)
  case Nil
  then show ?case by simp
next
  case (Cons p ps)
  then obtain el where el: "card_at s p = Some el"
    by (auto split: option.splits)
  let ?s1 = "set_card p (blank_out el)
               (s\<lparr>removedChars := removedChars s @
                     [\<lparr>r_char = c_char el, r_line = fst p, r_index = snd p,
                       r_lineText = currentLines s ! fst p\<rparr>]\<rparr>)"
  from Cons.prems el have "remove_each ps ?s1 = Inr s'" by simp
  from Cons.IH [OF this] show ?case by simp
qed

lemma removeRandomChars_blankPositions:
  assumes "removeRandomChars rs s = Inr s'"
  shows "blankPositions s' = slice0 (removeCount s) (fst (shuffle rs (allPositions (lineLength s))))"
    and "lineLength s' = lineLength s" and "removeCount s' = removeCount s"
    and "currentLines s' = currentLines s"
proof -
  let ?s0 = "s\<lparr>removedChars := []\<rparr>"
  let ?ps = "slice0 (removeCount s) (fst (shuffle rs (allPositions (lineLength s))))"
  from assms obtain s1 where s1: "remove_each ?ps ?s0 = Inr s1"
    by (auto simp: removeRandomChars_def Let_def split: prod.splits sum.splits)
  with assms have s': "s' = renderDragChars (fst (shuffle (snd (shuffle rs (allPositions (lineLength s)))) (removedChars s1))) s1"
    by (auto simp: removeRandomChars_def Let_def split: prod.splits sum.splits)
  have "blankPositions s1 = ?ps"
    using remove_each_removedChars [OF s1] by (simp add: blankPositions_def)
  then show "blankPositions s' = ?ps"
    by (simp add: s' blankPositions_def renderDragChars_def)
  show "lineLength s' = lineLength s" "removeCount s' = removeCount s" "currentLines s' = currentLines s"
    using remove_each_config [OF s1] by (simp_all add: s' renderDragChars_def)
qed


lemma selectRandomLines_config:
  "selectRandomLines rs s = (Inr s', rs') \<Longrightarrow>
   lineLength s' = lineLength s \<and> removeCount s' = removeCount s \<and> sections s' = sections s"
  by (auto simp: selectRandomLines_def Let_def split: if_splits prod.splits)

lemma renderPoem_config [simp]:
  "lineLength (renderPoem s) = lineLength s"
  "removeCount (renderPoem s) = removeCount s"
  "currentLines (renderPoem s) = currentLines s"
  "sections (renderPoem s) = sections s"
  by (simp_all add: renderPoem_def)

lemma startGame_Inr:
  assumes "startGame rs g = Inr s"
  obtains g1 rs1 s2 where
    "selectRandomLines rs (g\<lparr>lastDragAction := None\<rparr>) = (Inr g1, rs1)"
    "removeRandomChars rs1 (renderPoem g1) = Inr s2"
    "s = updateUndoButtonState (clearMessage (saveStateR s2))"
  using assms by (auto simp: startGame_def split: prod.splits sum.splits)

lemma clearMessage_fields [simp]:
  "line1 (clearMessage s) = line1 s"
  "line2 (clearMessage s) = line2 s"
  "dragChars (clearMessage s) = dragChars s"
  "lastDragAction (clearMessage s) = lastDragAction s"
  "stateR (clearMessage s) = stateR s"
  "currentLines (clearMessage s) = currentLines s"
  "removedChars (clearMessage s) = removedChars s"
  "removeCount (clearMessage s) = removeCount s"
  "lineLength (clearMessage s) = lineLength s"
  "sections (clearMessage s) = sections s"
  "undoDisabled (clearMessage s) = undoDisabled s"
  "pendingRestores (clearMessage s) = pendingRestores s"
  "message (clearMessage s) = MsgNone"
  by (simp_all add: clearMessage_def)

lemma saveStateR_fields [simp]:
  "line1 (saveStateR s) = line1 s"
  "line2 (saveStateR s) = line2 s"
  "dragChars (saveStateR s) = dragChars s"
  "lastDragAction (saveStateR s) = lastDragAction s"
  "currentLines (saveStateR s) = currentLines s"
  "removedChars (saveStateR s) = removedChars s"
  "removeCount (saveStateR s) = removeCount s"
  "lineLength (saveStateR s) = lineLength s"
  "sections (saveStateR s) = sections s"
  "undoDisabled (saveStateR s) = undoDisabled s"
  "pendingRestores (saveStateR s) = pendingRestores s"
  "message (saveStateR s) = message s"
  by (simp_all add: saveStateR_def)

lemma blankPositions_cong:
  "removedChars s' = removedChars s \<Longrightarrow> blankPositions s' = blankPositions s"
  by (simp add: blankPositions_def)

lemma startGame_blankPositions:
  assumes "startGame rs g = Inr s"
  shows "\<exists>rs1. blankPositions s = slice0 (removeCount g) (fst (shuffle rs1 (allPositions (lineLength g))))"
    and "lineLength s = lineLength g" and "removeCount s = removeCount g"
proof -
  from assms obtain g1 rs1 s2 where
    sel: "selectRandomLines rs (g\<lparr>lastDragAction := None\<rparr>) = (Inr g1, rs1)"
    and rem: "removeRandomChars rs1 (renderPoem g1) = Inr s2"
    and s: "s = updateUndoButtonState (clearMessage (saveStateR s2))"
    by (rule startGame_Inr)
  from selectRandomLines_config [OF sel]
  have c: "lineLength g1 = lineLength g" "removeCount g1 = removeCount g" by simp_all
  from removeRandomChars_blankPositions [OF rem] c
  show "\<exists>rs1. blankPositions s = slice0 (removeCount g) (fst (shuffle rs1 (allPositions (lineLength g))))"
    and "lineLength s = lineLength g" and "removeCount s = removeCount g"
    by (auto simp: s blankPositions_def)
qed

lemma length_lineEl_set_card [simp]:
  "length (lineEl (set_card p c s) ln) = length (lineEl s ln)"
  by (simp add: lineEl_def set_card_def)

lemma lineEl_removedChars_update [simp]:
  "lineEl (s\<lparr>removedChars := x\<rparr>) ln = lineEl s ln"
  by (simp add: lineEl_def)

lemma remove_each_succeeds:
  "\<forall>p \<in> set ps. snd p < length (lineEl s (fst p)) \<Longrightarrow> \<exists>s'. remove_each ps s = Inr s'"
proof (induction ps arbitrary: s)
  case Nil
  then show ?case by simp
next
  case (Cons p ps)
  then have "card_at s p = Some (lineEl s (fst p) ! snd p)"
    by (simp add: card_at_def)
  moreover have "\<exists>s'. remove_each ps
           (set_card p (blank_out (lineEl s (fst p) ! snd p))
              (s\<lparr>removedChars := removedChars s @
                    [\<lparr>r_char = c_char (lineEl s (fst p) ! snd p), r_line = fst p, r_index = snd p,
                      r_lineText = currentLines s ! fst p\<rparr>]\<rparr>)) = Inr s'"
    using Cons.prems by (intro Cons.IH) simp
  ultimately show ?case by simp
qed

lemma removeRandomChars_succeeds:
  assumes "lineLength s \<le> int (length (line1 s))" and "lineLength s \<le> int (length (line2 s))"
  shows "\<exists>s'. removeRandomChars rs s = Inr s'"
proof -
  let ?s0 = "s\<lparr>removedChars := []\<rparr>"
  let ?sh = "fst (shuffle rs (allPositions (lineLength s)))"
  let ?ps = "slice0 (removeCount s) ?sh"
  have "set ?ps \<subseteq> set ?sh"
    by (simp add: slice0_def set_take_subset)
  also have "set ?sh = {p. fst p < 2 \<and> int (snd p) < lineLength s}"
    using shuffle_perm [of rs "allPositions (lineLength s)"] allPositions_props(2) [of "lineLength s"]
    by simp
  finally have "\<forall>p \<in> set ?ps. snd p < length (lineEl ?s0 (fst p))"
    using assms by (auto simp: lineEl_def)
  then obtain s1 where "remove_each ?ps ?s0 = Inr s1"
    using remove_each_succeeds by blast
  then show ?thesis
    by (simp add: removeRandomChars_def Let_def case_prod_beta)
qed

text \<open>
  Claim C1, as the code has it. A \<open>removeCount\<close> above the number of positions is not
  an error to \<open>removeRandomChars\<close>: when each line has a card for every column it
  returns normally, with every position of the grid blanked.
\<close>

theorem excess_removeCount_is_clamped:
  assumes "2 * lineLength s < removeCount s"
    and "lineLength s \<le> int (length (line1 s))" and "lineLength s \<le> int (length (line2 s))"
  shows "\<exists>s'. removeRandomChars rs s = Inr s'
            \<and> int (length (blankPositions s')) = 2 * max 0 (lineLength s)
            \<and> set (blankPositions s') = {p. fst p < 2 \<and> int (snd p) < lineLength s}"
proof -
  from removeRandomChars_succeeds [OF assms(2,3)] obtain s' where
    s': "removeRandomChars rs s = Inr s'" by blast
  let ?sh = "fst (shuffle rs (allPositions (lineLength s)))"
  have l: "length ?sh = 2 * nat (lineLength s)"
    and st: "set ?sh = {p. fst p < 2 \<and> int (snd p) < lineLength s}"
    using shuffle_perm [of rs "allPositions (lineLength s)"] allPositions_props [of "lineLength s"]
    by simp_all
  have "slice0 (removeCount s) ?sh = ?sh"
    using assms(1) l by (auto simp: slice0_def)
  then have b: "blankPositions s' = ?sh"
    using removeRandomChars_blankPositions(1) [OF s'] by simp
  have "int (length (blankPositions s')) = 2 * max 0 (lineLength s)"
    using l by (auto simp: b)
  with s' b st show ?thesis by simp
qed

theorem excess_removeCount_is_clamped_witness:
  "2 * lineLength eleven_rendered < removeCount eleven_rendered
   \<and> removeCount eleven_rendered = 11
   \<and> lineLength eleven_rendered = 5
   \<and> length (line1 eleven_rendered) = 5
   \<and> length (line2 eleven_rendered) = 5
   \<and> (\<exists>s'. removeRandomChars [] eleven_rendered = Inr s' \<and> int (length (blankPositions s')) = 10)"
proof -
  have c: "removeCount eleven_rendered = 11" "lineLength eleven_rendered = 5"
    "length (line1 eleven_rendered) = 5" "length (line2 eleven_rendered) = 5"
    by code_simp+
  have h1: "2 * lineLength eleven_rendered < removeCount eleven_rendered" by (simp add: c)
  have h2: "lineLength eleven_rendered \<le> int (length (line1 eleven_rendered))" by (simp add: c)
  have h3: "lineLength eleven_rendered \<le> int (length (line2 eleven_rendered))" by (simp add: c)
  from excess_removeCount_is_clamped [OF h1 h2 h3, of "[]"] c h1 show ?thesis by auto
qed

text \<open>
  With \<open>removeCount = 11\<close> and two lines of five, starting a round returns normally
  with ten blanks.
\<close>

theorem no_fail_fast_counterexample:
  "\<not> isl (removeRandomChars [] eleven_rendered)
   \<and> \<not> isl (startGame [] eleven_game)
   \<and> removeCount eleven_game = 11 \<and> lineLength eleven_game = 5
   \<and> length (removedChars (projr (startGame [] eleven_game))) = 10
   \<and> length (emptyCards (projr (startGame [] eleven_game))) = 10"
  by code_simp

subsection \<open>What belongs to the round stays\<close>

lemma round_fields_set_card [simp]: "round_fields (set_card p c s) = round_fields s"
  by (simp add: round_fields_def)

lemma round_fields_update_drag [simp]: "round_fields (update_drag k f s) = round_fields s"
  by (simp add: round_fields_def)

lemma round_fields_checkCompletion [simp]: "round_fields (checkCompletion s) = round_fields s"
  by (simp add: round_fields_def)

lemma round_fields_updateUndoButtonState [simp]:
  "round_fields (updateUndoButtonState s) = round_fields s"
  by (simp add: round_fields_def)

lemma round_fields_clear_all_drag_over [simp]:
  "round_fields (clear_all_drag_over s) = round_fields s"
  by (simp add: round_fields_def clear_all_drag_over_def)

lemma round_fields_lastDragAction_update [simp]:
  "round_fields (s\<lparr>lastDragAction := a\<rparr>) = round_fields s"
  by (simp add: round_fields_def)

lemma round_fields_pendingRestores_update [simp]:
  "round_fields (s\<lparr>pendingRestores := n\<rparr>) = round_fields s"
  by (simp add: round_fields_def)

lemma round_fields_onDrop: "round_fields (snd (onDrop p ch di s)) = round_fields s"
  by (simp add: onDrop_def Let_def split: option.splits)

lemma round_fields_onTouchEnd: "round_fields (snd (onTouchEnd k t s)) = round_fields s"
  by (simp add: onTouchEnd_def Let_def split: option.splits)

lemma round_fields_undoLastDrag: "round_fields (snd (undoLastDrag s)) = round_fields s"
  by (simp add: undoLastDrag_def Let_def split: option.splits)

lemma round_fields_restoreStateR: "round_fields (restoreStateR s) = round_fields s"
  by (simp add: restoreStateR_def rebindEvents_def Let_def clearMessage_def
      updateUndoButtonState_def round_fields_def split: option.splits)

lemma round_fields_onTimer: "round_fields (onTimer s) = round_fields s"
  by (simp add: onTimer_def round_fields_restoreStateR)

lemma round_fields_step:
  "\<not> is_Restart e \<Longrightarrow> step e s = Inr s' \<Longrightarrow> round_fields s' = round_fields s"
  by (cases e)
    (auto simp: round_fields_onDrop round_fields_onTouchEnd round_fields_undoLastDrag
      round_fields_onTimer)


subsection \<open>The state that round generation leaves\<close>

lemma list_all_cards_set_card:
  "list_all P (cards s) \<Longrightarrow> P c \<Longrightarrow> list_all P (cards (set_card p c s))"
  by (auto simp: cards_def set_card_def list_all_iff dest!: set_update_subset_insert [THEN subsetD])

lemma card_at_in_cards: "card_at s p = Some c \<Longrightarrow> c \<in> set (cards s)"
  by (auto simp: card_at_def cards_def lineEl_def split: if_splits)

lemma cards_removedChars_update [simp]: "cards (s\<lparr>removedChars := x\<rparr>) = cards s"
  by (simp add: cards_def)

lemma blank_out_blank: "fresh_card c \<or> blank_card c \<Longrightarrow> blank_card (blank_out c)"
  by (auto simp: fresh_card_def blank_card_def blank_out_def setupDropZone_def)

lemma remove_each_start_cards:
  "remove_each ps s = Inr s' \<Longrightarrow> list_all (\<lambda>c. fresh_card c \<or> blank_card c) (cards s) \<Longrightarrow>
   list_all (\<lambda>c. fresh_card c \<or> blank_card c) (cards s')"
proof (induction ps arbitrary: s)
  case Nil
  then show ?case by simp
next
  case (Cons p ps)
  then obtain el where el: "card_at s p = Some el"
    by (auto split: option.splits)
  let ?s1 = "set_card p (blank_out el)
               (s\<lparr>removedChars := removedChars s @
                     [\<lparr>r_char = c_char el, r_line = fst p, r_index = snd p,
                       r_lineText = currentLines s ! fst p\<rparr>]\<rparr>)"
  from Cons.prems el have r: "remove_each ps ?s1 = Inr s'" by simp
  have "fresh_card el \<or> blank_card el"
    using card_at_in_cards [OF el] Cons.prems(2) by (simp add: list_all_iff)
  then have "blank_card (blank_out el)" by (rule blank_out_blank)
  then have "list_all (\<lambda>c. fresh_card c \<or> blank_card c) (cards ?s1)"
    using Cons.prems(2) by (intro list_all_cards_set_card) simp_all
  from Cons.IH [OF r this] show ?case .
qed

lemma renderPoem_fresh: "list_all (\<lambda>c. fresh_card c \<or> blank_card c) (cards (renderPoem s))"
  by (auto simp: renderPoem_def cards_def list_all_iff fresh_card_def createCharCard_def)

lemma removeRandomChars_start:
  assumes "removeRandomChars rs s = Inr s'"
    and "list_all (\<lambda>c. fresh_card c \<or> blank_card c) (cards s)"
  shows "list_all (\<lambda>c. fresh_card c \<or> blank_card c) (cards s')"
    and "list_all (\<lambda>d. d_className d = [ClsDragChar]) (dragChars s')"
proof -
  let ?s0 = "s\<lparr>removedChars := []\<rparr>"
  let ?ps = "slice0 (removeCount s) (fst (shuffle rs (allPositions (lineLength s))))"
  from assms(1) obtain s1 where s1: "remove_each ?ps ?s0 = Inr s1"
    by (auto simp: removeRandomChars_def Let_def split: prod.splits sum.splits)
  with assms(1) have s': "s' = renderDragChars (fst (shuffle (snd (shuffle rs (allPositions (lineLength s)))) (removedChars s1))) s1"
    by (auto simp: removeRandomChars_def Let_def split: prod.splits sum.splits)
  have "list_all (\<lambda>c. fresh_card c \<or> blank_card c) (cards s1)"
    using remove_each_start_cards [OF s1] assms(2) by simp
  then show "list_all (\<lambda>c. fresh_card c \<or> blank_card c) (cards s')"
    by (simp add: s' renderDragChars_def cards_def)
  show "list_all (\<lambda>d. d_className d = [ClsDragChar]) (dragChars s')"
    by (auto simp: s' renderDragChars_def list_all_iff)
qed

lemma remove_each_lastDragAction:
  "remove_each ps s = Inr s' \<Longrightarrow>
   lastDragAction s' = lastDragAction s \<and> pendingRestores s' = pendingRestores s"
proof (induction ps arbitrary: s)
  case Nil
  then show ?case by simp
next
  case (Cons p ps)
  then obtain el where el: "card_at s p = Some el"
    by (auto split: option.splits)
  let ?s1 = "set_card p (blank_out el)
               (s\<lparr>removedChars := removedChars s @
                     [\<lparr>r_char = c_char el, r_line = fst p, r_index = snd p,
                       r_lineText = currentLines s ! fst p\<rparr>]\<rparr>)"
  from Cons.prems el have "remove_each ps ?s1 = Inr s'" by simp
  from Cons.IH [OF this] show ?case by simp
qed

lemma removeRandomChars_lastDragAction:
  assumes "removeRandomChars rs s = Inr s'"
  shows "lastDragAction s' = lastDragAction s" and "pendingRestores s' = pendingRestores s"
proof -
  let ?s0 = "s\<lparr>removedChars := []\<rparr>"
  let ?ps = "slice0 (removeCount s) (fst (shuffle rs (allPositions (lineLength s))))"
  from assms obtain s1 where s1: "remove_each ?ps ?s0 = Inr s1"
    by (auto simp: removeRandomChars_def Let_def split: prod.splits sum.splits)
  with assms have s': "s' = renderDragChars (fst (shuffle (snd (shuffle rs (allPositions (lineLength s)))) (removedChars s1))) s1"
    by (auto simp: removeRandomChars_def Let_def split: prod.splits sum.splits)
  show "lastDragAction s' = lastDragAction s" and "pendingRestores s' = pendingRestores s"
    using remove_each_lastDragAction [OF s1] by (simp_all add: s' renderDragChars_def)
qed

lemma startGame_start_ok:
  assumes "startGame rs g = Inr s"
  shows "start_ok s"
proof -
  from assms obtain g1 rs1 s2 where
    sel: "selectRandomLines rs (g\<lparr>lastDragAction := None\<rparr>) = (Inr g1, rs1)"
    and rem: "removeRandomChars rs1 (renderPoem g1) = Inr s2"
    and s: "s = updateUndoButtonState (clearMessage (saveStateR s2))"
    by (rule startGame_Inr)
  have "lastDragAction g1 = None"
    using sel by (auto simp: selectRandomLines_def Let_def split: if_splits prod.splits)
  then have "lastDragAction (renderPoem g1) = None"
    by (simp add: renderPoem_def)
  moreover have "lastDragAction s2 = lastDragAction (renderPoem g1)"
    using rem by (rule removeRandomChars_lastDragAction(1))
  ultimately have la: "lastDragAction s2 = None" by simp
  from removeRandomChars_start [OF rem renderPoem_fresh]
  show ?thesis
    using la by (simp add: s start_ok_def cards_def saveStateR_def updateUndoButtonState_def clearMessage_def)
qed






lemma card_at_set_card:
  "card_at (set_card p c s) q =
     (if (fst q = 0) = (fst p = 0) \<and> snd q = snd p \<and> snd p < length (lineEl s (fst p)) then Some c
      else card_at s q)"
  by (auto simp: card_at_def set_card_def lineEl_def)

lemma card_at_removedChars_update [simp]: "card_at (s\<lparr>removedChars := x\<rparr>) p = card_at s p"
  by (simp add: card_at_def)

lemma remove_each_blanks:
  "remove_each ps s = Inr s' \<Longrightarrow> list_all (\<lambda>c. fresh_card c \<or> blank_card c) (cards s) \<Longrightarrow>
   \<forall>p \<in> D. \<exists>c. card_at s p = Some c \<and> blank_card c \<Longrightarrow>
   \<forall>p \<in> D \<union> set ps. \<exists>c. card_at s' p = Some c \<and> blank_card c"
proof (induction ps arbitrary: s D)
  case Nil
  then show ?case by simp
next
  case (Cons p ps)
  then obtain el where el: "card_at s p = Some el"
    by (auto split: option.splits)
  let ?s1 = "set_card p (blank_out el)
               (s\<lparr>removedChars := removedChars s @
                     [\<lparr>r_char = c_char el, r_line = fst p, r_index = snd p,
                       r_lineText = currentLines s ! fst p\<rparr>]\<rparr>)"
  from Cons.prems el have r: "remove_each ps ?s1 = Inr s'" by simp
  have "fresh_card el \<or> blank_card el"
    using card_at_in_cards [OF el] Cons.prems(2) by (simp add: list_all_iff)
  then have b: "blank_card (blank_out el)" by (rule blank_out_blank)
  then have a: "list_all (\<lambda>c. fresh_card c \<or> blank_card c) (cards ?s1)"
    using Cons.prems(2) by (intro list_all_cards_set_card) simp_all
  have len: "snd p < length (lineEl s (fst p))"
    using el by (simp add: card_at_def split: if_splits)
  have "\<forall>q \<in> insert p D. \<exists>c. card_at ?s1 q = Some c \<and> blank_card c"
    using Cons.prems(3) b len by (auto simp: card_at_set_card)
  from Cons.IH [OF r a this] show ?case by simp
qed

lemma startGame_blanks:
  assumes "startGame rs g = Inr s"
  shows "\<forall>p \<in> set (blankPositions s). \<exists>c. card_at s p = Some c \<and> blank_card c"
proof -
  from assms obtain g1 rs1 s2 where
    sel: "selectRandomLines rs (g\<lparr>lastDragAction := None\<rparr>) = (Inr g1, rs1)"
    and rem: "removeRandomChars rs1 (renderPoem g1) = Inr s2"
    and s: "s = updateUndoButtonState (clearMessage (saveStateR s2))"
    by (rule startGame_Inr)
  let ?r = "renderPoem g1"
  let ?s0 = "?r\<lparr>removedChars := []\<rparr>"
  let ?ps = "slice0 (removeCount ?r) (fst (shuffle rs1 (allPositions (lineLength ?r))))"
  from rem obtain s1 where s1: "remove_each ?ps ?s0 = Inr s1"
    by (auto simp: removeRandomChars_def Let_def split: prod.splits sum.splits)
  with rem have s2: "s2 = renderDragChars (fst (shuffle (snd (shuffle rs1 (allPositions (lineLength ?r)))) (removedChars s1))) s1"
    by (auto simp: removeRandomChars_def Let_def split: prod.splits sum.splits)
  have "list_all (\<lambda>c. fresh_card c \<or> blank_card c) (cards ?s0)"
    using renderPoem_fresh [of g1] by simp
  from remove_each_blanks [OF s1 this, of "{}"]
  have "\<forall>p \<in> set ?ps. \<exists>c. card_at s1 p = Some c \<and> blank_card c" by simp
  moreover have "blankPositions s1 = ?ps"
    using remove_each_removedChars [OF s1] by (simp add: blankPositions_def)
  moreover have "blankPositions s = blankPositions s1"
    by (simp add: s s2 blankPositions_def renderDragChars_def)
  moreover have "\<And>p. card_at s p = card_at s1 p"
    by (simp add: s s2 card_at_def lineEl_def renderDragChars_def saveStateR_def clearMessage_def)
  ultimately show ?thesis by simp
qed

subsection \<open>Restoring the snapshot\<close>


lemma card_at_pendingRestores_update [simp]: "card_at (s\<lparr>pendingRestores := n\<rparr>) p = card_at s p"
  by (simp add: card_at_def lineEl_def)




subsection \<open>A restart while a restore is pending\<close>




subsection \<open>The verdict\<close>

lemma emptyCards_ok:
  "list_all card_ok (cards s) \<Longrightarrow> emptyCards s = filter (\<lambda>c. c_filled c = Some False) (cards s)"
  unfolding emptyCards_def by (rule filter_cong) (auto simp: list_all_iff card_ok_def)

lemma filledCards_ok:
  "list_all card_ok (cards s) \<Longrightarrow> filledCards s = filter (\<lambda>c. c_filled c = Some True) (cards s)"
  unfolding filledCards_def by (rule filter_cong) (auto simp: list_all_iff card_ok_def)

lemma blankCards_all_filled:
  assumes "\<not> (\<exists>c \<in> set (blankCards s). c_filled c = Some False)"
  shows "blankCards s = filter (\<lambda>c. c_filled c = Some True) (cards s)"
  unfolding blankCards_def
proof (rule filter_cong)
  fix c assume "c \<in> set (cards s)"
  with assms have "c_filled c \<noteq> Some False" by (auto simp: blankCards_def)
  then show "(c_filled c \<noteq> None) = (c_filled c = Some True)"
    by (cases "c_filled c") auto
qed simp

text \<open>
  Claim C4, as the code has it. On a well-formed page whose \<open>removeCount\<close> does not
  exceed the number of blanks, \<open>checkCompletion\<close> finds the round incomplete exactly
  when some blank is still empty; with every blank filled it finds it correct exactly
  when every blank holds its original character, and incorrect otherwise.
\<close>

theorem evaluate_verdict:
  assumes "list_all card_ok (cards s)" and "removeCount s \<le> int (length (blankCards s))"
  shows "evaluate s =
          (if \<exists>c \<in> set (blankCards s). c_filled c = Some False then Incomplete
           else if \<forall>c \<in> set (blankCards s). c_filledChar c = Some (c_char c) then Correct
           else Incorrect)"
proof (cases "\<exists>c \<in> set (blankCards s). c_filled c = Some False")
  case True
  then have "emptyCards s \<noteq> []"
    by (auto simp: emptyCards_ok [OF assms(1)] blankCards_def filter_empty_conv)
  with True show ?thesis by (simp add: evaluate_def)
next
  case False
  then have b: "blankCards s = filledCards s"
    using blankCards_all_filled [of s] filledCards_ok [OF assms(1)] by simp
  have "\<forall>c \<in> set (cards s). c_filled c \<noteq> Some False"
    using False by (auto simp: blankCards_def)
  then have e: "emptyCards s = []"
    by (simp add: emptyCards_ok [OF assms(1)] filter_empty_conv)
  have "\<not> int (length (filledCards s)) < removeCount s"
    using assms(2) by (simp add: b)
  with False e show ?thesis
    by (auto simp: evaluate_def b list_all_iff)
qed

theorem evaluate_verdict_witness:
  "list_all card_ok (cards demo_right)
   \<and> removeCount demo_right \<le> int (length (blankCards demo_right))
   \<and> evaluate demo_right = Correct
   \<and> list_all card_ok (cards demo_wrong)
   \<and> removeCount demo_wrong \<le> int (length (blankCards demo_wrong))
   \<and> evaluate demo_wrong = Incorrect
   \<and> list_all card_ok (cards demo_one_fill)
   \<and> removeCount demo_one_fill \<le> int (length (blankCards demo_one_fill))
   \<and> evaluate demo_one_fill = Incomplete"
proof -
  have a: "list_all card_ok (cards demo_right)"
    "removeCount demo_right \<le> int (length (blankCards demo_right))"
    by code_simp+
  have b: "list_all card_ok (cards demo_wrong)"
    "removeCount demo_wrong \<le> int (length (blankCards demo_wrong))"
    by code_simp+
  have c: "list_all card_ok (cards demo_one_fill)"
    "removeCount demo_one_fill \<le> int (length (blankCards demo_one_fill))"
    by code_simp+
  have a1: "\<not> (\<exists>c \<in> set (blankCards demo_right). c_filled c = Some False)"
    "\<forall>c \<in> set (blankCards demo_right). c_filledChar c = Some (c_char c)"
    by code_simp+
  have b1: "\<not> (\<exists>c \<in> set (blankCards demo_wrong). c_filled c = Some False)"
    "\<not> (\<forall>c \<in> set (blankCards demo_wrong). c_filledChar c = Some (c_char c))"
    by code_simp+
  have c1: "\<exists>c \<in> set (blankCards demo_one_fill). c_filled c = Some False"
    by code_simp
  from evaluate_verdict [OF a] a1 have ra: "evaluate demo_right = Correct" by simp
  from evaluate_verdict [OF b] b1 have rb: "evaluate demo_wrong = Incorrect" by simp
  from evaluate_verdict [OF c] c1 have rc: "evaluate demo_one_fill = Incomplete" by simp
  from a b c ra rb rc show ?thesis by blast
qed

text \<open>
  With \<open>removeCount = 11\<close> and ten blanks, all ten filled with their own characters,
  the verdict is still \<open>Incomplete\<close>: ten filled cards are fewer than eleven.
\<close>

theorem evaluate_all_filled_counterexample:
  "removeCount eleven_all_correct = 11
   \<and> length (blankCards eleven_all_correct) = 10
   \<and> list_all (\<lambda>c. c_filled c = Some True \<and> c_filledChar c = Some (c_char c)) (blankCards eleven_all_correct)
   \<and> evaluate eleven_all_correct = Incomplete"
  by code_simp

subsection \<open>What every reachable state satisfies\<close>

lemma card_ok_simps [simp]:
  "card_ok (fill_card ch c)"
  "card_ok (empty_out c)"
  "card_ok c \<Longrightarrow> card_ok (c\<lparr>c_className := classList_remove ClsDragOver (c_className c)\<rparr>)"
  "card_ok c \<Longrightarrow> card_ok (clear_drag_over c)"
  "card_ok c \<Longrightarrow> card_ok (rebind_card c)"
  "card_ok c \<Longrightarrow> card_ok (serialize c)"
  by (auto simp: card_ok_def fill_card_def empty_out_def classList_remove_def clear_drag_over_def
      rebind_card_def setupDropZone_def serialize_def)

lemma start_card_ok: "fresh_card c \<or> blank_card c \<Longrightarrow> card_ok c"
  by (auto simp: card_ok_def fresh_card_def blank_card_def)

lemma c_filled_simps [simp]:
  "c_filled (fill_card ch c) = Some True"
  "c_filled (empty_out c) = Some False"
  "c_filled (clear_drag_over c) = c_filled c"
  "c_filled (rebind_card c) = c_filled c"
  "c_filled (serialize c) = c_filled c"
  by (simp_all add: fill_card_def empty_out_def clear_drag_over_def rebind_card_def
      setupDropZone_def serialize_def)

lemma round_inv_cong:
  assumes "line1 s' = line1 s" "line2 s' = line2 s" "stateR s' = stateR s"
    "removedChars s' = removedChars s" "lastDragAction s' = lastDragAction s"
  shows "round_inv s' = round_inv s"
proof -
  have "cards s' = cards s" "\<And>p. card_at s' p = card_at s p"
    using assms by (simp_all add: cards_def card_at_def lineEl_def)
  then show ?thesis
    using assms by (simp add: round_inv_def page_ok_def blankCards_def cong: option.case_cong)
qed

lemma card_at_set_card_alias:
  "(fst q = 0) = (fst p = 0) \<Longrightarrow> snd q = snd p \<Longrightarrow> card_at s p = Some c \<Longrightarrow>
   card_at (set_card p c' s) q = Some c'"
  by (auto simp: card_at_def set_card_def lineEl_def split: if_splits)

lemma card_at_alias:
  "(fst q = 0) = (fst p = 0) \<Longrightarrow> snd q = snd p \<Longrightarrow> card_at s q = card_at s p"
  by (simp add: card_at_def lineEl_def)

lemma blankCards_set_card_same:
  assumes "card_at s p = Some c" "(c_filled c' \<noteq> None) = (c_filled c \<noteq> None)"
  shows "length (blankCards (set_card p c' s)) = length (blankCards s)"
  using assms
  by (auto simp: blankCards_def cards_def set_card_def card_at_def lineEl_def
      length_filter_update_same split: if_splits)

lemma round_inv_set_card:
  assumes "round_inv s" "card_at s p = Some c" "card_ok c'"
    "(c_filled c' \<noteq> None) = (c_filled c \<noteq> None)"
  shows "round_inv (set_card p c' s)"
proof -
  have 1: "page_ok (set_card p c' s)"
    using assms(1,3) by (simp add: round_inv_def page_ok_def list_all_cards_set_card)
  have 2: "length (blankCards (set_card p c' s)) = length (removedChars s)"
    using assms(1) blankCards_set_card_same [OF assms(2,4)] by (simp add: round_inv_def)
  have 3: "case lastDragAction s of None \<Rightarrow> True
           | Some a \<Rightarrow> (case card_at (set_card p c' s) (a_card a) of None \<Rightarrow> False | Some c \<Rightarrow> c_filled c \<noteq> None)"
  proof (cases "lastDragAction s")
    case None
    then show ?thesis by simp
  next
    case (Some a)
    with assms(1) obtain d where d: "card_at s (a_card a) = Some d" "c_filled d \<noteq> None"
      by (auto simp: round_inv_def split: option.splits)
    have "\<exists>e. card_at (set_card p c' s) (a_card a) = Some e \<and> c_filled e \<noteq> None"
    proof (cases "(fst (a_card a) = 0) = (fst p = 0) \<and> snd (a_card a) = snd p")
      case True
      then have al: "(fst (a_card a) = 0) = (fst p = 0)" "snd (a_card a) = snd p"
        by blast+
      have "card_at s (a_card a) = card_at s p"
        using al by (rule card_at_alias)
      with d assms(2) have "d = c" by simp
      with d(2) assms(4) have "c_filled c' \<noteq> None" by blast
      moreover have "card_at (set_card p c' s) (a_card a) = Some c'"
        using al assms(2) by (rule card_at_set_card_alias)
      ultimately show ?thesis by blast
    next
      case False
      then have "(fst (a_card a) = 0) \<noteq> (fst p = 0) \<or> snd (a_card a) \<noteq> snd p"
        by (simp only: de_Morgan_conj)
      then have "card_at (set_card p c' s) (a_card a) = card_at s (a_card a)"
        by (rule card_at_set_card_other)
      with d show ?thesis by simp
    qed
    with Some show ?thesis by auto
  qed
  from 1 2 3 assms(1) show ?thesis
    by (simp add: round_inv_def cong: option.case_cong)
qed

lemma round_inv_lastDragAction_None: "round_inv s \<Longrightarrow> round_inv (s\<lparr>lastDragAction := None\<rparr>)"
  by (simp add: round_inv_def page_ok_def blankCards_def cards_def cong: option.case_cong)

lemma round_inv_lastDragAction_Some:
  "round_inv s \<Longrightarrow> card_at s (a_card a) = Some c \<Longrightarrow> c_filled c \<noteq> None \<Longrightarrow>
   round_inv (s\<lparr>lastDragAction := Some a\<rparr>)"
  by (simp add: round_inv_def page_ok_def blankCards_def cards_def cong: option.case_cong)

lemma round_inv_update_drag [simp]: "round_inv (update_drag k f s) = round_inv s"
  by (rule round_inv_cong) simp_all

lemma round_inv_updateUndoButtonState [simp]: "round_inv (updateUndoButtonState s) = round_inv s"
  by (rule round_inv_cong) simp_all

lemma round_inv_checkCompletion [simp]: "round_inv (checkCompletion s) = round_inv s"
  by (rule round_inv_cong) simp_all

lemma round_inv_pendingRestores [simp]: "round_inv (s\<lparr>pendingRestores := n\<rparr>) = round_inv s"
  by (rule round_inv_cong) simp_all

lemma round_inv_card_ok: "round_inv s \<Longrightarrow> card_at s p = Some c \<Longrightarrow> card_ok c"
  using card_at_in_cards [of s p c] by (simp add: round_inv_def page_ok_def list_all_iff)

lemma round_inv_onDrop:
  assumes "round_inv s"
  shows "round_inv (snd (onDrop p ch di s))"
proof (cases "card_at s p")
  case None
  then show ?thesis using assms by (simp add: onDrop_def)
next
  case (Some c0)
  show ?thesis
  proof (cases "c_dropZone c0")
    case False
    with Some show ?thesis using assms by (simp add: onDrop_def)
  next
    case True
    let ?c = "c0\<lparr>c_className := classList_remove ClsDragOver (c_className c0)\<rparr>"
    let ?s0 = "set_card p ?c s"
    have ok0: "card_ok c0" using assms Some by (rule round_inv_card_ok)
    then have b0: "c_filled c0 \<noteq> None" using True by (simp add: card_ok_def)
    have i0: "round_inv ?s0"
      using assms Some by (rule round_inv_set_card) (simp_all add: ok0)
    have at0: "card_at ?s0 p = Some ?c"
      using Some by (rule card_at_set_card_same)
    show ?thesis
    proof (cases "c_filled c0 = Some True")
      case t: True
      with Some True i0 show ?thesis by (simp add: onDrop_def Let_def)
    next
      case f: False
      let ?a = "\<lparr>a_card = p, a_dragChar = querySelector_dragIndex di (dragChars s), a_char = ch\<rparr>"
      let ?s1 = "updateUndoButtonState (?s0\<lparr>lastDragAction := Some ?a\<rparr>)"
      let ?s2 = "set_card p (fill_card ch ?c) ?s1"
      have "round_inv (?s0\<lparr>lastDragAction := Some ?a\<rparr>)"
        using i0 at0 b0 by (intro round_inv_lastDragAction_Some [where c = ?c]) simp_all
      then have i1: "round_inv ?s1" by simp
      have at1: "card_at ?s1 p = Some ?c"
        using at0 by simp
      have i2: "round_inv ?s2"
        using i1 at1 by (rule round_inv_set_card) (simp_all add: b0)
      have "snd (onDrop p ch di s) =
              checkCompletion (case querySelector_dragIndex di (dragChars s) of
                                 None \<Rightarrow> ?s2 | Some k \<Rightarrow> update_drag k hide ?s2)"
        using Some True f by (simp add: onDrop_def Let_def)
      then show ?thesis using i2 by (simp split: option.splits)
    qed
  qed
qed

lemma removedChars_clear_all_drag_over [simp]:
  "removedChars (clear_all_drag_over s) = removedChars s"
  by (simp add: clear_all_drag_over_def)

lemma round_inv_clear_all_drag_over: "round_inv s \<Longrightarrow> round_inv (clear_all_drag_over s)"
proof -
  assume i: "round_inv s"
  let ?s' = "clear_all_drag_over s"
  have c: "cards ?s' = map clear_drag_over (cards s)"
    by (simp add: clear_all_drag_over_def cards_def)
  have "list_all card_ok (map clear_drag_over (cards s))"
    using i by (simp add: round_inv_def page_ok_def list_all_iff)
  then have 1: "page_ok ?s'"
    using i by (simp add: round_inv_def page_ok_def c)
  have 2: "length (blankCards ?s') = length (blankCards s)"
    by (simp add: blankCards_def c filter_map comp_def)
  have 3: "\<And>q. card_at ?s' q = map_option clear_drag_over (card_at s q)"
    by (simp add: card_at_def lineEl_def clear_all_drag_over_def)
  have 4: "case lastDragAction ?s' of None \<Rightarrow> True
           | Some a \<Rightarrow> (case card_at ?s' (a_card a) of None \<Rightarrow> False | Some c \<Rightarrow> c_filled c \<noteq> None)"
    using i by (auto simp: round_inv_def 3 split: option.splits)
  have 5: "case stateR ?s' of None \<Rightarrow> True
           | Some r \<Rightarrow> length (filter (\<lambda>c. c_filled c \<noteq> None) (line1HTML r @ line2HTML r))
                    = length (removedChars ?s')"
    using i by (simp add: round_inv_def cong: option.case_cong)
  show ?thesis
    unfolding round_inv_def using i 1 2 4 5 by (simp add: round_inv_def)
qed

lemma round_inv_onTouchEnd:
  assumes "round_inv s"
  shows "round_inv (snd (onTouchEnd k t s))"
proof (cases "k < length (dragChars s)")
  case False
  then show ?thesis using assms by (simp add: onTouchEnd_def)
next
  case True
  let ?s0 = "update_drag k (\<lambda>d. d\<lparr>d_className := classList_remove ClsDragging (d_className d)\<rparr>) s"
  have i0: "round_inv ?s0" using assms by simp
  show ?thesis
  proof (cases "case t of None \<Rightarrow> None | Some p \<Rightarrow> card_at ?s0 p")
    case None
    then show ?thesis
      using True i0 by (simp add: onTouchEnd_def Let_def round_inv_clear_all_drag_over)
  next
    case (Some c)
    then obtain p where t: "t = Some p" and at: "card_at ?s0 p = Some c"
      by (auto split: option.splits)
    show ?thesis
    proof (cases "ClsEmpty \<in> set (c_className c) \<and> c_filled c \<noteq> Some True")
      case False
      then have "snd (onTouchEnd k t s) = clear_all_drag_over ?s0"
        using True t at by (auto simp: onTouchEnd_def Let_def)
      then show ?thesis
        using i0 by (simp add: round_inv_clear_all_drag_over)
    next
      case e: True
      have ok: "card_ok c" using i0 at by (rule round_inv_card_ok)
      then have b: "c_filled c \<noteq> None" using e by (simp add: card_ok_def)
      let ?a = "\<lparr>a_card = p, a_dragChar = Some k, a_char = d_char (dragChars ?s0 ! k)\<rparr>"
      let ?s1 = "updateUndoButtonState (?s0\<lparr>lastDragAction := Some ?a\<rparr>)"
      let ?s2 = "set_card p (fill_card (d_char (dragChars ?s0 ! k)) c) ?s1"
      have "round_inv (?s0\<lparr>lastDragAction := Some ?a\<rparr>)"
        using i0 at b by (intro round_inv_lastDragAction_Some [where c = c]) simp_all
      then have i1: "round_inv ?s1" by simp
      have at1: "card_at ?s1 p = Some c"
        using at by simp
      have i2: "round_inv ?s2"
        using i1 at1 by (rule round_inv_set_card) (simp_all add: b)
      have "snd (onTouchEnd k t s) = clear_all_drag_over (checkCompletion (update_drag k hide ?s2))"
        using True e t at by (simp add: onTouchEnd_def Let_def)
      then show ?thesis using i2 by (simp add: round_inv_clear_all_drag_over)
    qed
  qed
qed

lemma round_inv_undoLastDrag:
  assumes "round_inv s"
  shows "round_inv (snd (undoLastDrag s))"
proof (cases "lastDragAction s")
  case None
  then show ?thesis using assms by (simp add: undoLastDrag_def)
next
  case (Some a)
  with assms obtain c where c: "card_at s (a_card a) = Some c" "c_filled c \<noteq> None"
    by (auto simp: round_inv_def split: option.splits)
  have i1: "round_inv (set_card (a_card a) (empty_out c) s)"
    using assms c(1) by (rule round_inv_set_card) (simp_all add: c(2))
  have "snd (undoLastDrag s) =
          updateUndoButtonState
            ((case a_dragChar a of
                None \<Rightarrow> set_card (a_card a) (empty_out c) s
              | Some k \<Rightarrow> update_drag k (\<lambda>d. d\<lparr>d_className := classList_remove ClsHidden (d_className d)\<rparr>)
                            (set_card (a_card a) (empty_out c) s))\<lparr>lastDragAction := None\<rparr>)"
    using Some c(1) by (simp add: undoLastDrag_def Let_def)
  then show ?thesis
    using i1 by (simp add: round_inv_lastDragAction_None split: option.splits)
qed

lemma length_filter_map_same:
  "(\<And>x. P (f x) = P x) \<Longrightarrow> length (filter P (map f xs)) = length (filter P xs)"
  by (induction xs) simp_all

lemma round_inv_restoreStateR:
  assumes "round_inv s"
  shows "round_inv (restoreStateR s)"
proof (cases "stateR s")
  case None
  then show ?thesis using assms by (simp add: restoreStateR_def)
next
  case (Some r)
  let ?s' = "restoreStateR s"
  have l: "line1 ?s' = map rebind_card (line1HTML r)" "line2 ?s' = map rebind_card (line2HTML r)"
    and f: "stateR ?s' = Some r" "removedChars ?s' = removedChars s" "lastDragAction ?s' = None"
    using Some
    by (simp_all add: restoreStateR_def rebindEvents_def Let_def clearMessage_def
        updateUndoButtonState_def)
  from assms Some have ok: "list_all card_ok (line1HTML r)" "list_all card_ok (line2HTML r)"
    and n: "length (filter (\<lambda>c. c_filled c \<noteq> None) (line1HTML r @ line2HTML r)) = length (removedChars s)"
    by (simp_all add: round_inv_def page_ok_def)
  have 1: "page_ok ?s'"
    using ok by (auto simp: page_ok_def cards_def l f list_all_iff)
  have "length (blankCards ?s') = length (filter (\<lambda>c. c_filled c \<noteq> None) (line1HTML r @ line2HTML r))"
    by (simp add: blankCards_def cards_def l comp_def)
  with n have 2: "length (blankCards ?s') = length (removedChars s)" by simp
  show ?thesis
    unfolding round_inv_def using 1 2 n by (simp add: f)
qed

lemma round_inv_onTimer: "round_inv s \<Longrightarrow> round_inv (onTimer s)"
  by (simp add: onTimer_def round_inv_restoreStateR)

lemma blankCards_set_card_new:
  assumes "card_at s p = Some c" "c_filled c = None" "c_filled c' \<noteq> None"
  shows "length (blankCards (set_card p c' s)) = Suc (length (blankCards s))"
  using assms
  by (auto simp: blankCards_def cards_def set_card_def card_at_def lineEl_def
      length_filter_update_new split: if_splits)

lemma blankCards_removedChars_update [simp]:
  "blankCards (s\<lparr>removedChars := x\<rparr>) = blankCards s"
  by (simp add: blankCards_def)

lemma remove_each_blank_count:
  "remove_each ps s = Inr s' \<Longrightarrow> distinct ps \<Longrightarrow> \<forall>p \<in> set ps. fst p < 2 \<Longrightarrow>
   \<forall>p \<in> set ps. \<forall>c. card_at s p = Some c \<longrightarrow> c_filled c = None \<Longrightarrow>
   length (blankCards s') = length (blankCards s) + length ps"
proof (induction ps arbitrary: s)
  case Nil
  then show ?case by simp
next
  case (Cons p ps)
  then obtain el where el: "card_at s p = Some el"
    by (auto split: option.splits)
  let ?s1 = "set_card p (blank_out el)
               (s\<lparr>removedChars := removedChars s @
                     [\<lparr>r_char = c_char el, r_line = fst p, r_index = snd p,
                       r_lineText = currentLines s ! fst p\<rparr>]\<rparr>)"
  from Cons.prems el have r: "remove_each ps ?s1 = Inr s'" by simp
  have fn: "c_filled el = None"
    using Cons.prems(4) el by simp
  have n: "length (blankCards ?s1) = Suc (length (blankCards s))"
    using blankCards_set_card_new [of "s\<lparr>removedChars := removedChars s @
                     [\<lparr>r_char = c_char el, r_line = fst p, r_index = snd p,
                       r_lineText = currentLines s ! fst p\<rparr>]\<rparr>" p el "blank_out el"] el fn
    by (simp add: blank_out_def setupDropZone_def)
  have "\<forall>q \<in> set ps. \<forall>c. card_at ?s1 q = Some c \<longrightarrow> c_filled c = None"
  proof (intro ballI allI impI)
    fix q c assume q: "q \<in> set ps" and c: "card_at ?s1 q = Some c"
    from q Cons.prems(2) have "q \<noteq> p" by auto
    moreover from q Cons.prems(3) have "fst q < 2" "fst p < 2" by simp_all
    ultimately have "(fst q = 0) \<noteq> (fst p = 0) \<or> snd q \<noteq> snd p"
      by (cases p; cases q) auto
    then have "card_at ?s1 q = card_at s q"
      by (simp add: card_at_set_card_other)
    with c q Cons.prems(4) show "c_filled c = None" by simp
  qed
  from Cons.IH [OF r _ _ this] Cons.prems(2,3) n show ?case by simp
qed

lemma renderPoem_all_fresh: "list_all fresh_card (cards (renderPoem s))"
  by (auto simp: renderPoem_def cards_def list_all_iff fresh_card_def createCharCard_def)

lemma renderPoem_no_blanks:
  "card_at (renderPoem s) p = Some c \<Longrightarrow> c_filled c = None"
  "blankCards (renderPoem s) = []"
  using renderPoem_all_fresh [of s]
  by (auto simp: blankCards_def list_all_iff fresh_card_def filter_empty_conv
      dest!: card_at_in_cards)

lemma startGame_blank_count:
  assumes "startGame rs g = Inr s"
  shows "length (blankCards s) = length (removedChars s)"
proof -
  from assms obtain g1 rs1 s2 where
    sel: "selectRandomLines rs (g\<lparr>lastDragAction := None\<rparr>) = (Inr g1, rs1)"
    and rem: "removeRandomChars rs1 (renderPoem g1) = Inr s2"
    and s: "s = updateUndoButtonState (clearMessage (saveStateR s2))"
    by (rule startGame_Inr)
  let ?r = "renderPoem g1"
  let ?s0 = "?r\<lparr>removedChars := []\<rparr>"
  let ?sh = "fst (shuffle rs1 (allPositions (lineLength ?r)))"
  let ?ps = "slice0 (removeCount ?r) ?sh"
  from rem obtain s1 where s1: "remove_each ?ps ?s0 = Inr s1"
    by (auto simp: removeRandomChars_def Let_def split: prod.splits sum.splits)
  with rem have s2: "s2 = renderDragChars (fst (shuffle (snd (shuffle rs1 (allPositions (lineLength ?r)))) (removedChars s1))) s1"
    by (auto simp: removeRandomChars_def Let_def split: prod.splits sum.splits)
  have d: "distinct ?sh" and st: "set ?sh = {p. fst p < 2 \<and> int (snd p) < lineLength ?r}"
    using shuffle_perm [of rs1 "allPositions (lineLength ?r)"] allPositions_props [of "lineLength ?r"]
    by simp_all
  have 1: "distinct ?ps" using d by (simp add: slice0_def)
  have 2: "\<forall>p \<in> set ?ps. fst p < 2"
    using st set_take_subset [of _ ?sh] by (auto simp: slice0_def)
  have 3: "\<forall>p \<in> set ?ps. \<forall>c. card_at ?s0 p = Some c \<longrightarrow> c_filled c = None"
    by (simp add: renderPoem_no_blanks)
  from remove_each_blank_count [OF s1 1 2 3]
  have "length (blankCards s1) = length ?ps"
    by (simp add: renderPoem_no_blanks)
  moreover have "length (removedChars s1) = length ?ps"
  proof -
    have "blankPositions s1 = ?ps"
      using remove_each_removedChars [OF s1] by (simp add: blankPositions_def)
    then have "length (blankPositions s1) = length ?ps" by (rule arg_cong)
    then show ?thesis by (simp add: blankPositions_def)
  qed
  moreover have "blankCards s = blankCards s1" "removedChars s = removedChars s1"
    by (simp_all add: s s2 blankCards_def cards_def renderDragChars_def)
  ultimately show ?thesis by simp
qed

lemma startGame_round_inv:
  assumes "startGame rs g = Inr s"
  shows "round_inv s"
proof -
  have ok: "start_ok s" using assms by (rule startGame_start_ok)
  then have c: "list_all card_ok (cards s)"
    by (auto simp: start_ok_def list_all_iff start_card_ok)
  from ok have st: "stateR s = Some \<lparr>line1HTML = map serialize (line1 s), line2HTML = map serialize (line2 s),
                      dragCharsHTML = dragChars s, snap_removedChars = removedChars s\<rparr>"
    and la: "lastDragAction s = None"
    by (simp_all add: start_ok_def)
  have 1: "page_ok s"
    using c by (auto simp: page_ok_def st cards_def list_all_iff)
  have 2: "length (blankCards s) = length (removedChars s)"
    using assms by (rule startGame_blank_count)
  have 3: "length (filter (\<lambda>c. c_filled c \<noteq> None) (map serialize (line1 s) @ map serialize (line2 s)))
           = length (blankCards s)"
    by (simp add: blankCards_def cards_def comp_def)
  show ?thesis
    unfolding round_inv_def using 1 2 3 by (simp add: st la)
qed

lemma round_inv_step: "round_inv s \<Longrightarrow> step e s = Inr s' \<Longrightarrow> round_inv s'"
  by (cases e)
    (auto simp: round_inv_onDrop round_inv_onTouchEnd round_inv_undoLastDrag round_inv_onTimer
      startGame_round_inv)

lemma round_inv_exec: "round_inv s \<Longrightarrow> exec evs s = Inr s' \<Longrightarrow> round_inv s'"
proof (induction evs arbitrary: s)
  case Nil
  then show ?case by simp
next
  case (Cons e evs)
  from Cons.prems(2) obtain s1 where s1: "step e s = Inr s1" and r: "exec evs s1 = Inr s'"
    by (auto split: sum.splits)
  from Cons.IH [OF round_inv_step [OF Cons.prems(1) s1] r] show ?case .
qed

lemma round_inv_new_game: "round_inv (loadPoems fetched (new_game a b))"
  by (simp add: round_inv_def page_ok_def blankCards_def cards_def loadPoems_def new_game_def
      split: option.splits)

lemma round_inv_blank_count:
  "round_inv s \<Longrightarrow> length (blankCards s) = length (blankPositions s)"
  by (simp add: round_inv_def blankPositions_def)

subsection \<open>After a correct round\<close>










subsection \<open>Loading and the fallback\<close>

lemma length_trim: "length (trim s) \<le> length s"
proof -
  have "length (trim s) = length (dropWhile js_space (rev (dropWhile js_space s)))"
    by (simp add: trim_def)
  also have "\<dots> \<le> length (rev (dropWhile js_space s))"
    by (rule length_dropWhile_le)
  also have "\<dots> \<le> length s"
    by (simp add: length_dropWhile_le)
  finally show ?thesis .
qed

lemma parse_sections_props:
  assumes "sec \<in> set (parse_sections n text)"
  shows "2 \<le> length sec" and "\<forall>l \<in> set sec. n \<le> int (length l)"
proof -
  from assms obtain raw where
    sec: "sec = filter (\<lambda>line. int (length (trim line)) = n) (js_split [10] (trim raw))"
    and len: "2 \<le> length sec"
    by (auto simp: parse_sections_def)
  show "2 \<le> length sec" by (rule len)
  show "\<forall>l \<in> set sec. n \<le> int (length l)"
  proof
    fix l assume "l \<in> set sec"
    then have "int (length (trim l)) = n" by (simp add: sec)
    with length_trim [of l] show "n \<le> int (length l)" by simp
  qed
qed

lemma default_lines_length [simp]:
  "length default_line1 = 5" "length default_line2 = 5"
  "length default_line3 = 5" "length default_line4 = 5"
  by (simp_all add: default_line1_def default_line2_def default_line3_def default_line4_def)

lemma loadPoems_sections:
  assumes "sec \<in> set (sections (loadPoems fetched s))"
  shows "2 \<le> length sec"
    and "\<forall>l \<in> set sec. lineLength s \<le> int (length l) \<or> length l = 5"
  using assms parse_sections_props [of sec "lineLength s"]
  by (auto simp: loadPoems_def split: option.splits)

lemma loadPoems_config [simp]:
  "lineLength (loadPoems fetched s) = lineLength s"
  "removeCount (loadPoems fetched s) = removeCount s"
  by (simp_all add: loadPoems_def split: option.splits)

lemma loadPoems_failure:
  "sections (loadPoems None s) = [[default_line1, default_line2, default_line3, default_line4]]"
  by (simp add: loadPoems_def)

text \<open>Two lines that follow one another in a section of the corpus, or the built-in pair.\<close>

lemma selectRandomLines_consecutive:
  assumes "\<forall>sec \<in> set (sections s). 2 \<le> length sec"
  shows "\<exists>s' rs' a b. selectRandomLines rs s = (Inr s', rs')
           \<and> s' = s\<lparr>currentLines := [a, b]\<rparr>
           \<and> (if sections s = [] then a = default_line1 \<and> b = default_line2
               else \<exists>sec \<in> set (sections s). \<exists>i. Suc i < length sec \<and> a = sec ! i \<and> b = sec ! Suc i)"
proof (cases "sections s = []")
  case True
  then show ?thesis by (simp add: selectRandomLines_def)
next
  case False
  obtain k rs1 where k: "random_below (length (sections s)) rs = (k, rs1)"
    by (cases "random_below (length (sections s)) rs")
  have kl: "k < length (sections s)"
    using random_below_less [of "length (sections s)" rs] k False by simp
  let ?sec = "sections s ! k"
  have m: "?sec \<in> set (sections s)" using kl by simp
  then have l2: "2 \<le> length ?sec" using assms by simp
  obtain i rs2 where i: "random_below (length ?sec - 1) rs1 = (i, rs2)"
    by (cases "random_below (length ?sec - 1) rs1")
  have il: "i < length ?sec - 1"
    using random_below_less [of "length ?sec - 1" rs1] i l2 by simp
  have "selectRandomLines rs s = (Inr (s\<lparr>currentLines := [?sec ! i, ?sec ! (i + 1)]\<rparr>), rs2)"
    using False k i l2 by (simp add: selectRandomLines_def Let_def)
  moreover have "Suc i < length ?sec" using il by simp
  ultimately show ?thesis using False m by auto
qed


lemma length_lines_renderPoem [simp]:
  "length (line1 (renderPoem s)) = length (currentLines s ! 0)"
  "length (line2 (renderPoem s)) = length (currentLines s ! 1)"
  by (simp_all add: renderPoem_def)

lemma startGame_playable:
  assumes "\<forall>sec \<in> set (sections g). 2 \<le> length sec \<and> (\<forall>l \<in> set sec. lineLength g \<le> int (length l))"
    and "sections g = [] \<longrightarrow> lineLength g \<le> 5"
  shows "\<exists>s a b. startGame rs g = Inr s \<and> currentLines s = [a, b]
           \<and> (if sections g = [] then a = default_line1 \<and> b = default_line2
               else \<exists>sec \<in> set (sections g). \<exists>i. Suc i < length sec \<and> a = sec ! i \<and> b = sec ! Suc i)"
proof -
  let ?g = "g\<lparr>lastDragAction := None\<rparr>"
  have "\<forall>sec \<in> set (sections ?g). 2 \<le> length sec" using assms(1) by simp
  from selectRandomLines_consecutive [OF this, of rs] obtain s1 rs1 a b where
    sel: "selectRandomLines rs ?g = (Inr s1, rs1)"
    and s1: "s1 = ?g\<lparr>currentLines := [a, b]\<rparr>"
    and ab0: "if sections ?g = [] then a = default_line1 \<and> b = default_line2
             else \<exists>sec \<in> set (sections ?g). \<exists>i. Suc i < length sec \<and> a = sec ! i \<and> b = sec ! Suc i"
    by blast
  from ab0 have ab: "if sections g = [] then a = default_line1 \<and> b = default_line2
             else \<exists>sec \<in> set (sections g). \<exists>i. Suc i < length sec \<and> a = sec ! i \<and> b = sec ! Suc i"
    by (simp cong: if_cong)
  have fit: "lineLength g \<le> int (length a)" "lineLength g \<le> int (length b)"
  proof -
    show "lineLength g \<le> int (length a)"
    proof (cases "sections g = []")
      case True
      with ab assms(2) show ?thesis by simp
    next
      case False
      with ab obtain sec i where "sec \<in> set (sections g)" "Suc i < length sec" "a = sec ! i"
        by auto
      then have "sec \<in> set (sections g)" "a \<in> set sec" by simp_all
      with assms(1) show ?thesis by blast
    qed
    show "lineLength g \<le> int (length b)"
    proof (cases "sections g = []")
      case True
      with ab assms(2) show ?thesis by simp
    next
      case False
      with ab obtain sec i where "sec \<in> set (sections g)" "Suc i < length sec" "b = sec ! Suc i"
        by auto
      then have "sec \<in> set (sections g)" "b \<in> set sec" by simp_all
      with assms(1) show ?thesis by blast
    qed
  qed
  have "lineLength (renderPoem s1) \<le> int (length (line1 (renderPoem s1)))"
    "lineLength (renderPoem s1) \<le> int (length (line2 (renderPoem s1)))"
    using fit by (simp_all add: s1)
  from removeRandomChars_succeeds [OF this, of rs1] obtain s2 where
    rem: "removeRandomChars rs1 (renderPoem s1) = Inr s2" by blast
  have "currentLines s2 = [a, b]"
    using removeRandomChars_blankPositions(4) [OF rem] by (simp add: s1)
  moreover have "startGame rs g = Inr (updateUndoButtonState (clearMessage (saveStateR s2)))"
    using sel rem by (simp add: startGame_def)
  ultimately show ?thesis using ab by simp
qed

text \<open>
  As long as the configured \<open>lineLength\<close> is at most 5, the length of the built-in
  lines, the game always comes up with a round: whatever the fetch returned and whatever
  \<open>Math.random\<close> gives, \<open>init\<close> returns normally with two lines that follow one
  another in a loaded section, or with the built-in pair when no section is usable.
\<close>

lemma init_playable:
  assumes "or_default cfg_lineLength 5 \<le> 5"
  shows "\<exists>s a b. init fetched rs (new_game cfg_lineLength cfg_removeCount) = Inr s
           \<and> currentLines s = [a, b]
           \<and> (if sections (loadPoems fetched (new_game cfg_lineLength cfg_removeCount)) = []
               then a = default_line1 \<and> b = default_line2
               else \<exists>sec \<in> set (sections (loadPoems fetched (new_game cfg_lineLength cfg_removeCount))).
                      \<exists>i. Suc i < length sec \<and> a = sec ! i \<and> b = sec ! Suc i)"
proof -
  let ?n = "new_game cfg_lineLength cfg_removeCount"
  let ?g = "loadPoems fetched ?n"
  have l: "lineLength ?g \<le> 5"
    using assms by (simp add: new_game_def)
  have 1: "\<forall>sec \<in> set (sections ?g). 2 \<le> length sec \<and> (\<forall>l \<in> set sec. lineLength ?g \<le> int (length l))"
    using loadPoems_sections [of _ fetched ?n] l by fastforce
  have 2: "sections ?g = [] \<longrightarrow> lineLength ?g \<le> 5"
    using l by simp
  from startGame_playable [OF 1 2, of rs] show ?thesis
    by (simp add: init_def)
qed

text \<open>
  Claim C9, where the code fails. With \<open>lineLength = 6\<close> every line of a
  \<open>poet.txt\<close> of five-character lines is filtered out, the built-in lines of five
  characters take their place, and round generation throws as soon as it picks column 5
  of a line; the same happens after a failed fetch.
\<close>

theorem fallback_lines_shorter_than_lineLength:
  "sections (loadPoems (Some two_lines_text) six_game) = []
   \<and> init (Some two_lines_text) [0, 10, 9, 8, 7, 6, 5, 4, 3, 2, 1] six_game = Inl TypeError
   \<and> init None [0, 0, 0, 10, 9, 8, 7, 6, 5, 4, 3, 2, 1] six_game = Inl TypeError"
  by code_simp

subsection \<open>A game whose configuration fits the grid\<close>

lemma startGame_valid_count:
  assumes "startGame rs g = Inr s" and "0 \<le> removeCount g" and "removeCount g \<le> 2 * lineLength g"
  shows "int (length (removedChars s)) = removeCount s"
    and "0 \<le> removeCount s" and "removeCount s \<le> 2 * lineLength s"
proof -
  from startGame_blankPositions [OF assms(1)] obtain rs1 where
    b: "blankPositions s = slice0 (removeCount g) (fst (shuffle rs1 (allPositions (lineLength g))))"
    and c: "lineLength s = lineLength g" "removeCount s = removeCount g"
    by auto
  let ?sh = "fst (shuffle rs1 (allPositions (lineLength g)))"
  have l: "length ?sh = 2 * nat (lineLength g)"
    using shuffle_perm [of rs1 "allPositions (lineLength g)"] allPositions_props(3) [of "lineLength g"]
    by simp
  have "int (length (blankPositions s)) = removeCount g"
    using l assms(2,3) by (auto simp: b length_slice0)
  then show "int (length (removedChars s)) = removeCount s"
    by (simp add: blankPositions_def c)
  show "0 \<le> removeCount s" "removeCount s \<le> 2 * lineLength s"
    using assms(2,3) by (simp_all add: c)
qed

text \<open>
  With \<open>0 \<le> removeCount \<le> 2 \<times> lineLength\<close> every state of a started game, restarts
  included, is a well-formed page with exactly \<open>removeCount\<close> blanks.
\<close>

lemma exec_valid_config:
  "exec evs s = Inr s' \<Longrightarrow> round_inv s \<Longrightarrow> int (length (removedChars s)) = removeCount s \<Longrightarrow>
   0 \<le> removeCount s \<Longrightarrow> removeCount s \<le> 2 * lineLength s \<Longrightarrow>
   round_inv s' \<and> int (length (removedChars s')) = removeCount s'
   \<and> 0 \<le> removeCount s' \<and> removeCount s' \<le> 2 * lineLength s'"
proof (induction evs arbitrary: s)
  case Nil
  then show ?case by simp
next
  case (Cons e evs)
  from Cons.prems(1) obtain s1 where s1: "step e s = Inr s1" and r: "exec evs s1 = Inr s'"
    by (auto split: sum.splits)
  have i1: "round_inv s1"
    using Cons.prems(2) s1 by (rule round_inv_step)
  have k: "int (length (removedChars s1)) = removeCount s1 \<and> 0 \<le> removeCount s1
           \<and> removeCount s1 \<le> 2 * lineLength s1"
  proof (cases "is_Restart e")
    case True
    then obtain rs where "e = Restart rs" by (cases e) simp_all
    with s1 have "startGame rs s = Inr s1" by simp
    from startGame_valid_count [OF this Cons.prems(4,5)] show ?thesis by simp
  next
    case False
    from round_fields_step [OF this s1] Cons.prems(3,4,5) show ?thesis
      by (simp add: round_fields_def)
  qed
  from Cons.IH [OF r i1] k show ?case by simp
qed

lemma reachable_valid_config:
  assumes "startGame rs g = Inr s0" and "exec evs s0 = Inr s"
    and "0 \<le> removeCount g" and "removeCount g \<le> 2 * lineLength g"
  shows "list_all card_ok (cards s) \<and> removeCount s = int (length (blankCards s))"
proof -
  from exec_valid_config [OF assms(2) startGame_round_inv [OF assms(1)]
      startGame_valid_count [OF assms(1,3,4)]]
  have "round_inv s" "int (length (removedChars s)) = removeCount s" by simp_all
  then show ?thesis by (simp add: round_inv_def page_ok_def)
qed

subsection \<open>The blank layout of a generated round\<close>

text \<open>
  Claim C8, as the code has it. In every round that \<open>startGame\<close> produces the blank
  positions are pairwise distinct and lie in the grid of two lines and \<open>lineLength\<close>
  columns, each of them holds an empty blank card, and the page has no other blank
  card. Their number is the smaller of \<open>removeCount\<close> and the size of the grid (for a
  \<open>removeCount\<close> that is not negative), so it is \<open>removeCount\<close> whenever that does not
  exceed the grid.
\<close>

theorem blank_layout_of_generated_round:
  assumes "startGame rs g = Inr s"
  shows "distinct (blankPositions s)
       \<and> (\<forall>p \<in> set (blankPositions s). fst p < 2 \<and> int (snd p) < lineLength s)
       \<and> (0 \<le> removeCount s \<longrightarrow>
            int (length (blankPositions s)) = min (removeCount s) (2 * max 0 (lineLength s)))
       \<and> (0 \<le> removeCount s \<and> removeCount s \<le> 2 * lineLength s \<longrightarrow>
            int (length (blankPositions s)) = removeCount s)
       \<and> (\<forall>p \<in> set (blankPositions s).
             \<exists>c. card_at s p = Some c \<and> c_filled c = Some False \<and> c_textContent c = [])
       \<and> length (blankCards s) = length (blankPositions s)"
proof -
  from startGame_blankPositions [OF assms] obtain rs1 where
    b: "blankPositions s = slice0 (removeCount s) (fst (shuffle rs1 (allPositions (lineLength s))))"
    by auto
  let ?sh = "fst (shuffle rs1 (allPositions (lineLength s)))"
  have d: "distinct ?sh" and st: "set ?sh = {p. fst p < 2 \<and> int (snd p) < lineLength s}"
    and l: "length ?sh = 2 * nat (lineLength s)"
    using shuffle_perm [of rs1 "allPositions (lineLength s)"] allPositions_props [of "lineLength s"]
    by simp_all
  have "distinct (blankPositions s)"
    using d by (simp add: b slice0_def)
  moreover have "\<forall>p \<in> set (blankPositions s). fst p < 2 \<and> int (snd p) < lineLength s"
    using st set_take_subset [of _ ?sh] by (auto simp: b slice0_def)
  moreover have "0 \<le> removeCount s \<longrightarrow>
            int (length (blankPositions s)) = min (removeCount s) (2 * max 0 (lineLength s))"
    using l by (auto simp: b length_slice0)
  moreover have "0 \<le> removeCount s \<and> removeCount s \<le> 2 * lineLength s \<longrightarrow>
            int (length (blankPositions s)) = removeCount s"
    using l by (auto simp: b length_slice0)
  moreover have "\<forall>p \<in> set (blankPositions s).
             \<exists>c. card_at s p = Some c \<and> c_filled c = Some False \<and> c_textContent c = []"
    using startGame_blanks [OF assms] by (auto simp: blank_card_def)
  moreover have "length (blankCards s) = length (blankPositions s)"
    using startGame_blank_count [OF assms] by (simp add: blankPositions_def)
  ultimately show ?thesis by blast
qed

theorem blank_layout_of_generated_round_witness:
  "startGame [0, 0, 4, 7, 7, 2, 2, 0, 5, 6, 8, 2, 3, 2] demo_game = Inr demo_round
   \<and> blankPositions demo_round = [(0, 3), (1, 0), (1, 4), (0, 1)]
   \<and> distinct (blankPositions demo_round)
   \<and> removeCount demo_round = 4 \<and> lineLength demo_round = 5
   \<and> int (length (blankPositions demo_round)) = removeCount demo_round
   \<and> length (blankCards demo_round) = 4"
proof -
  have i: "\<not> isl (startGame [0, 0, 4, 7, 7, 2, 2, 0, 5, 6, 8, 2, 3, 2] demo_game)"
    by code_simp
  then have h: "startGame [0, 0, 4, 7, 7, 2, 2, 0, 5, 6, 8, 2, 3, 2] demo_game = Inr demo_round"
    by (simp add: demo_round_def)
  have c: "removeCount demo_round = 4" "lineLength demo_round = 5"
    "blankPositions demo_round = [(0, 3), (1, 0), (1, 4), (0, 1)]"
    by code_simp+
  from blank_layout_of_generated_round [OF h] h c show ?thesis by simp
qed

text \<open>
  With \<open>removeCount = 12\<close> and two lines of five the round has ten blanks, not twelve.
\<close>

theorem blank_count_counterexample:
  "\<not> isl (startGame [] (loadPoems None (new_game None (Some 12))))
   \<and> removeCount (projr (startGame [] (loadPoems None (new_game None (Some 12))))) = 12
   \<and> lineLength (projr (startGame [] (loadPoems None (new_game None (Some 12))))) = 5
   \<and> length (blankPositions (projr (startGame [] (loadPoems None (new_game None (Some 12)))))) = 10"
  by code_simp

end
